theory Spec2Isabelle
  imports Complex_Main "HOL-Library.AList" "HOL-Library.Multiset"
begin

section \<open>Data model of \<^verbatim>\<open>stormtracks/match.py\<close>\<close>

text \<open>
  Dates are the totally ordered time stamps of the tracks, positions are
  (longitude, latitude) pairs.  Distances are modelled as real numbers; the
  geometry helper \<^verbatim>\<open>utils.utils.dist\<close> is not part of the sources and is a
  parameter \<open>distf\<close> of every function that calls it.
\<close>

type_synonym date = int
type_synonym pos = "real \<times> real"
type_synonym dist_fn = "pos \<Rightarrow> pos \<Rightarrow> real"

datatype error = IndexError | KeyError | AttributeError | ZeroDivisionError | SmootherError

text \<open>
  A best track exposes \<^verbatim>\<open>lons\<close>, \<^verbatim>\<open>lats\<close> and \<^verbatim>\<open>dates\<close>; a vorticity track exposes
  \<^verbatim>\<open>dates\<close>, the ordered dictionary \<^verbatim>\<open>vortmax_by_date\<close> (of which only the
  \<^verbatim>\<open>.pos\<close> of each value is read) and the list \<^verbatim>\<open>vortmaxes\<close> (again only
  \<^verbatim>\<open>.pos\<close>).  Python hashes and compares these objects by identity, which
  the field \<open>ident\<close> stands for.
\<close>

record BestTrack =
  ident :: nat
  lons :: "real list"
  lats :: "real list"
  dates :: "date list"

record VortTrack =
  vort_ident :: nat
  vort_dates :: "date list"
  vortmax_by_date :: "(date \<times> pos) list"
  vortmaxes :: "pos list"

record Match =
  best_track :: BestTrack
  vort_track :: VortTrack
  cum_dist :: real
  overlap :: nat
  is_too_far_away :: bool
  overlap_start :: date
  overlap_end :: date

type_synonym matches = "((BestTrack \<times> VortTrack) \<times> Match) list"

definition CUM_DIST_CUTOFF :: real where
  "CUM_DIST_CUTOFF = 100"

text \<open>\<^verbatim>\<open>Match.__init__\<close>: \<^verbatim>\<open>dates[0]\<close> and \<^verbatim>\<open>dates[-1]\<close> raise IndexError on an
  empty sequence.\<close>

definition Match_init :: "BestTrack \<Rightarrow> VortTrack \<Rightarrow> error + Match" where
  "Match_init b v =
     (if dates b = [] then Inl IndexError
      else if vort_dates v = [] then Inl IndexError
      else Inr \<lparr> best_track = b, vort_track = v, cum_dist = 0, overlap = 1,
                 is_too_far_away = False,
                 overlap_start = max (hd (dates b)) (hd (vort_dates v)),
                 overlap_end = min (last (dates b)) (last (vort_dates v)) \<rparr>)"

text \<open>\<^verbatim>\<open>Match.av_dist\<close>: the division raises when \<^verbatim>\<open>overlap\<close> is zero.\<close>

definition av_dist :: "Match \<Rightarrow> error + real" where
  "av_dist m =
     (if overlap m = 0 then Inl ZeroDivisionError
      else Inr (cum_dist m / real (overlap m)))"

section \<open>The association engine \<^verbatim>\<open>match\<close>\<close>

text \<open>
  Lines 55 to 57: the distance is added to the match and the flag is set when
  the sum exceeds the cutoff; the mutated object is the one stored in the
  dictionary under \<open>(b, v)\<close>.  A date missing from \<^verbatim>\<open>vortmax_by_date\<close> is a
  KeyError.
\<close>

definition add_dist ::
  "dist_fn \<Rightarrow> BestTrack \<Rightarrow> real \<Rightarrow> real \<Rightarrow> date \<Rightarrow> VortTrack \<Rightarrow> Match \<Rightarrow> matches
     \<Rightarrow> error + matches" where
  "add_dist distf b lon lat date v m ms =
     (case map_of (vortmax_by_date v) date of
        None \<Rightarrow> Inl KeyError
      | Some p \<Rightarrow>
          (let m1 = m\<lparr>cum_dist := cum_dist m + distf p (lon, lat)\<rparr>;
               m2 = (if cum_dist m1 > CUM_DIST_CUTOFF
                     then m1\<lparr>is_too_far_away := True\<rparr> else m1)
           in Inr (AList.update (b, v) m2 ms)))"

text \<open>Lines 46 to 57: the body of the innermost loop, for one \<^verbatim>\<open>vortmax\<close>.\<close>

definition visit ::
  "dist_fn \<Rightarrow> BestTrack \<Rightarrow> real \<Rightarrow> real \<Rightarrow> date \<Rightarrow> matches \<Rightarrow> VortTrack
     \<Rightarrow> error + matches" where
  "visit distf b lon lat date ms v =
     (case map_of ms (b, v) of
        Some m0 \<Rightarrow> add_dist distf b lon lat date v (m0\<lparr>overlap := overlap m0 + 1\<rparr>) ms
      | None \<Rightarrow>
          (case Match_init b v of
             Inl e \<Rightarrow> Inl e
           | Inr m0 \<Rightarrow>
               (let ms' = AList.update (b, v) m0 ms
                in if is_too_far_away m0 then Inr ms'
                   else add_dist distf b lon lat date v m0 ms')))"

text \<open>Line 45: \<^verbatim>\<open>for vortmax in vort_tracks\<close>.\<close>

fun visit_tracks ::
  "dist_fn \<Rightarrow> BestTrack \<Rightarrow> real \<Rightarrow> real \<Rightarrow> date \<Rightarrow> matches \<Rightarrow> VortTrack list
     \<Rightarrow> error + matches" where
  "visit_tracks distf b lon lat date ms [] = Inr ms"
| "visit_tracks distf b lon lat date ms (v # vs) =
     (case visit distf b lon lat date ms v of
        Inl e \<Rightarrow> Inl e
      | Inr ms' \<Rightarrow> visit_tracks distf b lon lat date ms' vs)"

text \<open>Lines 42 to 44: the walk over the zipped observations of one best track.\<close>

fun walk_track ::
  "dist_fn \<Rightarrow> (date \<rightharpoonup> VortTrack list) \<Rightarrow> BestTrack \<Rightarrow> matches
     \<Rightarrow> (real \<times> real \<times> date) list \<Rightarrow> error + matches" where
  "walk_track distf idx b ms [] = Inr ms"
| "walk_track distf idx b ms ((lon, lat, date) # obs) =
     (case idx date of
        None \<Rightarrow> walk_track distf idx b ms obs
      | Some vort_tracks \<Rightarrow>
          (case visit_tracks distf b lon lat date ms vort_tracks of
             Inl e \<Rightarrow> Inl e
           | Inr ms' \<Rightarrow> walk_track distf idx b ms' obs))"

definition observations :: "BestTrack \<Rightarrow> (real \<times> real \<times> date) list" where
  "observations b = zip (lons b) (zip (lats b) (dates b))"

text \<open>Line 41: \<^verbatim>\<open>for best_track in best_tracks\<close>, from a given dictionary.\<close>

fun match_loop ::
  "dist_fn \<Rightarrow> (date \<rightharpoonup> VortTrack list) \<Rightarrow> matches \<Rightarrow> BestTrack list
     \<Rightarrow> error + matches" where
  "match_loop distf idx ms [] = Inr ms"
| "match_loop distf idx ms (b # bs) =
     (case walk_track distf idx b ms (observations b) of
        Inl e \<Rightarrow> Inl e
      | Inr ms' \<Rightarrow> match_loop distf idx ms' bs)"

definition match ::
  "dist_fn \<Rightarrow> (date \<rightharpoonup> VortTrack list) \<Rightarrow> BestTrack list \<Rightarrow> error + matches" where
  "match distf vort_tracks_by_date best_tracks =
     match_loop distf vort_tracks_by_date [] best_tracks"

text \<open>
  The joint visits of a run, written as a comprehension independent of the
  loops: one entry for every best track, every zipped observation of it whose
  date has an entry in the temporal index, and every vorticity track listed
  under that date, in iteration order.
\<close>

type_synonym visit_ev = "BestTrack \<times> real \<times> real \<times> date \<times> VortTrack"

definition track_visits ::
  "(date \<rightharpoonup> VortTrack list) \<Rightarrow> BestTrack \<Rightarrow> (real \<times> real \<times> date) list \<Rightarrow> visit_ev list" where
  "track_visits idx b obs =
     concat (map (\<lambda>(lon, lat, date).
        (case idx date of
           None \<Rightarrow> []
         | Some vs \<Rightarrow> map (\<lambda>v. (b, lon, lat, date, v)) vs)) obs)"

definition joint_visits ::
  "(date \<rightharpoonup> VortTrack list) \<Rightarrow> BestTrack list \<Rightarrow> visit_ev list" where
  "joint_visits idx bs = concat (map (\<lambda>b. track_visits idx b (observations b)) bs)"

definition visit_key :: "visit_ev \<Rightarrow> BestTrack \<times> VortTrack" where
  "visit_key = (\<lambda>(b, lon, lat, date, v). (b, v))"

definition pair_visits ::
  "(date \<rightharpoonup> VortTrack list) \<Rightarrow> BestTrack list \<Rightarrow> BestTrack \<Rightarrow> VortTrack
     \<Rightarrow> visit_ev list" where
  "pair_visits idx bs b v = filter (\<lambda>ev. visit_key ev = (b, v)) (joint_visits idx bs)"

text \<open>The distance a joint visit contributes (line 55).\<close>

definition visit_dist :: "dist_fn \<Rightarrow> visit_ev \<Rightarrow> real" where
  "visit_dist distf = (\<lambda>(b, lon, lat, date, v).
     (case map_of (vortmax_by_date v) date of
        None \<Rightarrow> 0
      | Some p \<Rightarrow> distf p (lon, lat)))"

definition pair_dists ::
  "dist_fn \<Rightarrow> (date \<rightharpoonup> VortTrack list) \<Rightarrow> BestTrack list \<Rightarrow> BestTrack \<Rightarrow> VortTrack
     \<Rightarrow> real list" where
  "pair_dists distf idx bs b v = map (visit_dist distf) (pair_visits idx bs b v)"

text \<open>
  A joint visit can be processed when the vorticity track has a date sequence
  for the constructor and a position on the visited date.
\<close>

definition visit_ok :: "visit_ev \<Rightarrow> bool" where
  "visit_ok = (\<lambda>(b, lon, lat, date, v).
     vort_dates v \<noteq> [] \<and> date \<in> set (map fst (vortmax_by_date v)))"

text \<open>The loop body applied along a list of joint visits.\<close>

fun run_visits :: "dist_fn \<Rightarrow> matches \<Rightarrow> visit_ev list \<Rightarrow> error + matches" where
  "run_visits distf ms [] = Inr ms"
| "run_visits distf ms ((b, lon, lat, date, v) # evs) =
     (case visit distf b lon lat date ms v of
        Inl e \<Rightarrow> Inl e
      | Inr ms' \<Rightarrow> run_visits distf ms' evs)"

section \<open>The aggregator \<^verbatim>\<open>combined_match\<close>\<close>

text \<open>
  The result is a dictionary from best tracks to lists of matches.  A member
  of \<^verbatim>\<open>all_matches\<close> is whatever the caller passes and the inner loop can
  iterate over: a sequence of Match objects, or the ordered dictionary that
  \<^verbatim>\<open>match\<close> returns.  Iterating over a dictionary yields its keys, here the
  \<^verbatim>\<open>(best_track, vortmax)\<close> tuples, and reading \<^verbatim>\<open>.best_track\<close> of a tuple is
  an AttributeError; indexing the result with a best track that was not
  supplied is a KeyError.
\<close>

type_synonym combined = "BestTrack \<rightharpoonup> Match list"

datatype match_iterable = MatchSeq "Match list" | MatchDict matches

datatype element = MatchElem Match | KeyElem "BestTrack \<times> VortTrack"

definition iterate :: "match_iterable \<Rightarrow> element list" where
  "iterate it =
     (case it of
        MatchSeq ms \<Rightarrow> map MatchElem ms
      | MatchDict d \<Rightarrow> map (\<lambda>kv. KeyElem (fst kv)) d)"

fun init_combined :: "combined \<Rightarrow> BestTrack list \<Rightarrow> combined" where
  "init_combined cm [] = cm"
| "init_combined cm (b # bs) = init_combined (cm(b \<mapsto> [])) bs"

fun append_matches :: "combined \<Rightarrow> element list \<Rightarrow> error + combined" where
  "append_matches cm [] = Inr cm"
| "append_matches cm (KeyElem k # es) = Inl AttributeError"
| "append_matches cm (MatchElem m # es) =
     (case cm (best_track m) of
        None \<Rightarrow> Inl KeyError
      | Some l \<Rightarrow> append_matches (cm(best_track m \<mapsto> l @ [m])) es)"

fun append_all :: "combined \<Rightarrow> match_iterable list \<Rightarrow> error + combined" where
  "append_all cm [] = Inr cm"
| "append_all cm (matches # rest) =
     (case append_matches cm (iterate matches) of
        Inl e \<Rightarrow> Inl e
      | Inr cm' \<Rightarrow> append_all cm' rest)"

definition combined_match ::
  "BestTrack list \<Rightarrow> match_iterable list \<Rightarrow> error + combined" where
  "combined_match best_tracks all_matches =
     append_all (init_combined Map.empty best_tracks) all_matches"

text \<open>The values of the result, flattened over the distinct keys supplied.\<close>

definition flatten_combined :: "combined \<Rightarrow> BestTrack list \<Rightarrow> Match list" where
  "flatten_combined cm bs =
     concat (map (\<lambda>b. case cm b of None \<Rightarrow> [] | Some l \<Rightarrow> l) (remdups bs))"

section \<open>The parameter search \<^verbatim>\<open>_optimize\<close>\<close>

text \<open>
  \<^verbatim>\<open>_cum_dist\<close>: the bare \<^verbatim>\<open>except\<close> swallows the KeyError of a date missing
  from the dictionary, leaving both the sum and the overlap unchanged.
\<close>

fun cum_dist_loop ::
  "dist_fn \<Rightarrow> (date \<times> pos) list \<Rightarrow> real \<times> nat \<Rightarrow> (real \<times> real \<times> date) list
     \<Rightarrow> real \<times> nat" where
  "cum_dist_loop distf dict (d, ov) [] = (d, ov)"
| "cum_dist_loop distf dict (d, ov) ((lon, lat, date) # obs) =
     (case map_of dict date of
        None \<Rightarrow> cum_dist_loop distf dict (d, ov) obs
      | Some p \<Rightarrow> cum_dist_loop distf dict (d + (distf p (lon, lat))\<^sup>2, ov + 1) obs)"

definition u_cum_dist ::
  "dist_fn \<Rightarrow> BestTrack \<Rightarrow> (date \<times> pos) list \<Rightarrow> real \<times> nat" where
  "u_cum_dist distf b vmbd = cum_dist_loop distf vmbd (0, 0) (observations b)"

datatype mode = Smoothed | Filtered

type_synonym param = "real \<times> real \<times> mode"

text \<open>
  What the final \<^verbatim>\<open>print\<close> shows: a quotient, or one of the values numpy
  gives to a division by zero.
\<close>

datatype quotient = Ratio real | NaN | PosInf | NegInf

datatype printout =
  PrintBaseline real | PrintNewOptimum param | PrintMinDist real | PrintRatio quotient

text \<open>
  \<^verbatim>\<open>utils.kalman.RTSSmoother\<close> is not part of the sources.  It is a parameter:
  from its own state, the raw positions and the two scale factors,
  \<^verbatim>\<open>process_data\<close> either raises or yields the smoothed positions, the filtered
  positions (the \<^verbatim>\<open>[:, :2, 0]\<close> slices) and its next state.
\<close>

type_synonym 's smoother_fn =
  "'s \<Rightarrow> pos list \<Rightarrow> real \<Rightarrow> real \<Rightarrow> error + (pos list \<times> pos list \<times> 's)"

record 's search_state =
  min_d :: real
  optimum_param :: "param option"
  smoothed_dict :: "(date \<times> pos) list"
  filtered_dict :: "(date \<times> pos) list"
  printed :: "printout list"
  rts_smoother :: 's

text \<open>Lines 167 to 173; a row index beyond the smoother's output is an IndexError.\<close>

fun fill_dicts ::
  "pos list \<Rightarrow> pos list \<Rightarrow> (date \<times> pos) list \<times> (date \<times> pos) list \<Rightarrow> (nat \<times> date) list
     \<Rightarrow> error + ((date \<times> pos) list \<times> (date \<times> pos) list)" where
  "fill_dicts smoothed_pos filtered_pos (sd, fd) [] = Inr (sd, fd)"
| "fill_dicts smoothed_pos filtered_pos (sd, fd) ((i, date) # rest) =
     (if length smoothed_pos \<le> i then Inl IndexError
      else if length filtered_pos \<le> i then Inl IndexError
      else fill_dicts smoothed_pos filtered_pos
             (AList.update date (smoothed_pos ! i) sd,
              AList.update date (filtered_pos ! i) fd) rest)"

text \<open>Lines 178 to 182 and 188 to 191: the two checks against the running minimum.\<close>

definition check_smoothed ::
  "real \<Rightarrow> real \<Rightarrow> nat \<Rightarrow> real \<Rightarrow> 's search_state \<Rightarrow> 's search_state" where
  "check_smoothed q_param r_param ov smoothed_new_d st =
     (if 6 \<le> ov \<and> smoothed_new_d < min_d st
      then st\<lparr> optimum_param := Some (q_param, r_param, Smoothed),
               min_d := smoothed_new_d,
               printed := printed st @
                 [PrintNewOptimum (q_param, r_param, Smoothed), PrintMinDist smoothed_new_d] \<rparr>
      else st)"

definition check_filtered ::
  "real \<Rightarrow> real \<Rightarrow> nat \<Rightarrow> real \<Rightarrow> 's search_state \<Rightarrow> 's search_state" where
  "check_filtered q_param r_param ov filtered_new_d st =
     (if 6 \<le> ov \<and> filtered_new_d < min_d st
      then st\<lparr> optimum_param := Some (q_param, r_param, Filtered),
               min_d := filtered_new_d,
               printed := printed st @ [PrintNewOptimum (q_param, r_param, Filtered)] \<rparr>
      else st)"

text \<open>Lines 163 to 196: one grid point.  The second call of \<^verbatim>\<open>_cum_dist\<close>
  overwrites \<^verbatim>\<open>overlap\<close>, so both checks read the overlap of the filtered
  dictionary.\<close>

definition grid_point ::
  "dist_fn \<Rightarrow> 's smoother_fn \<Rightarrow> BestTrack \<Rightarrow> VortTrack \<Rightarrow> real \<Rightarrow> real
     \<Rightarrow> 's search_state \<Rightarrow> error + 's search_state" where
  "grid_point distf process_data b v q_param r_param st =
     (case process_data (rts_smoother st) (vortmaxes v) q_param r_param of
        Inl e \<Rightarrow> Inl e
      | Inr (smoothed_pos, filtered_pos, s') \<Rightarrow>
          (case fill_dicts smoothed_pos filtered_pos (smoothed_dict st, filtered_dict st)
                  (List.enumerate 0 (map fst (vortmax_by_date v))) of
             Inl e \<Rightarrow> Inl e
           | Inr (sd, fd) \<Rightarrow>
               (let smoothed_new_d = fst (u_cum_dist distf b sd);
                    filtered_new_d = fst (u_cum_dist distf b fd);
                    ov = snd (u_cum_dist distf b fd);
                    st1 = st\<lparr> smoothed_dict := sd, filtered_dict := fd, rts_smoother := s' \<rparr>
                in Inr (check_filtered q_param r_param ov filtered_new_d
                         (check_smoothed q_param r_param ov smoothed_new_d st1)))))"

text \<open>Lines 161 and 162: the nested loops over the two scale factors.\<close>

fun r_loop ::
  "dist_fn \<Rightarrow> 's smoother_fn \<Rightarrow> BestTrack \<Rightarrow> VortTrack \<Rightarrow> real \<Rightarrow> 's search_state
     \<Rightarrow> real list \<Rightarrow> error + 's search_state" where
  "r_loop distf process_data b v q_param st [] = Inr st"
| "r_loop distf process_data b v q_param st (r_param # rs) =
     (case grid_point distf process_data b v q_param r_param st of
        Inl e \<Rightarrow> Inl e
      | Inr st' \<Rightarrow> r_loop distf process_data b v q_param st' rs)"

fun q_loop ::
  "dist_fn \<Rightarrow> 's smoother_fn \<Rightarrow> BestTrack \<Rightarrow> VortTrack \<Rightarrow> real list \<Rightarrow> 's search_state
     \<Rightarrow> real list \<Rightarrow> error + 's search_state" where
  "q_loop distf process_data b v rs st [] = Inr st"
| "q_loop distf process_data b v rs st (q_param # qs) =
     (case r_loop distf process_data b v q_param st rs of
        Inl e \<Rightarrow> Inl e
      | Inr st' \<Rightarrow> q_loop distf process_data b v rs st' qs)"

text \<open>
  The state the search starts from (lines 141 to 150) and the whole function
  over given grids.  \<^verbatim>\<open>pos[0, 0]\<close> raises IndexError when the track has no
  vorticity maxima.  The function has no \<^verbatim>\<open>return\<close> statement: its value is
  Python's \<^verbatim>\<open>None\<close>, modelled as \<open>None\<close> of an option over the pair of optimum
  and ratio, and what it reports is what it prints.
\<close>

definition initial_state :: "dist_fn \<Rightarrow> 's \<Rightarrow> BestTrack \<Rightarrow> VortTrack \<Rightarrow> 's search_state" where
  "initial_state distf s0 b v =
     \<lparr> min_d = fst (u_cum_dist distf b (vortmax_by_date v)),
       optimum_param = None,
       smoothed_dict = [],
       filtered_dict = [],
       printed = [PrintBaseline (fst (u_cum_dist distf b (vortmax_by_date v)))],
       rts_smoother = s0 \<rparr>"

definition search ::
  "dist_fn \<Rightarrow> 's smoother_fn \<Rightarrow> 's \<Rightarrow> real list \<Rightarrow> real list \<Rightarrow> BestTrack \<Rightarrow> VortTrack
     \<Rightarrow> error + 's search_state" where
  "search distf process_data s0 qs rs b v =
     (if vortmaxes v = [] then Inl IndexError
      else q_loop distf process_data b v rs (initial_state distf s0 b v) qs)"

text \<open>
  Line 198, \<^verbatim>\<open>min_d / baseline_dist\<close>.  What a zero divisor does depends on
  the type of the two values.  When no date contributed, both are the Python
  integer 0 that \<^verbatim>\<open>_cum_dist\<close> starts from, and the division raises.
  Otherwise they have the type of the squared distances, which the absent
  geometry helper decides; this is the parameter \<open>numpy_dist\<close>: Python floats
  raise ZeroDivisionError, numpy scalars give \<^verbatim>\<open>nan\<close> or an infinity and the
  function goes on to print it.
\<close>

definition divide_values :: "bool \<Rightarrow> nat \<Rightarrow> real \<Rightarrow> real \<Rightarrow> error + quotient" where
  "divide_values numpy_dist overlap0 x y =
     (if y \<noteq> 0 then Inr (Ratio (x / y))
      else if overlap0 = 0 \<or> \<not> numpy_dist then Inl ZeroDivisionError
      else Inr (if x = 0 then NaN else if 0 < x then PosInf else NegInf))"

definition optimize_grid ::
  "bool \<Rightarrow> dist_fn \<Rightarrow> 's smoother_fn \<Rightarrow> 's \<Rightarrow> real list \<Rightarrow> real list \<Rightarrow> BestTrack
     \<Rightarrow> VortTrack \<Rightarrow> error + ((param option \<times> real) option \<times> printout list)" where
  "optimize_grid numpy_dist distf process_data s0 qs rs b v =
     (case search distf process_data s0 qs rs b v of
        Inl e \<Rightarrow> Inl e
      | Inr st \<Rightarrow>
          (let (baseline_dist, overlap0) = u_cum_dist distf b (vortmax_by_date v)
           in case divide_values numpy_dist overlap0 (min_d st) baseline_dist of
                Inl e \<Rightarrow> Inl e
              | Inr ratio \<Rightarrow> Inr (None, printed st @ [PrintRatio ratio])))"

text \<open>
  The grids of the source, \<^verbatim>\<open>np.arange(1e-4, 1e-2, 5e-4)\<close> and
  \<^verbatim>\<open>np.arange(1e-2, 1e0, 5e-2)\<close>, with exact arithmetic in place of floats.
\<close>

definition arange :: "real \<Rightarrow> real \<Rightarrow> real \<Rightarrow> real list" where
  "arange start stop step =
     map (\<lambda>k. start + real k * step) [0..<nat \<lceil>(stop - start) / step\<rceil>]"

definition u_optimize ::
  "bool \<Rightarrow> dist_fn \<Rightarrow> 's smoother_fn \<Rightarrow> 's \<Rightarrow> BestTrack \<Rightarrow> VortTrack
     \<Rightarrow> error + ((param option \<times> real) option \<times> printout list)" where
  "u_optimize numpy_dist distf process_data s0 b v =
     optimize_grid numpy_dist distf process_data s0
       (arange (1 / 10 ^ 4) (1 / 10 ^ 2) (5 / 10 ^ 4))
       (arange (1 / 10 ^ 2) 1 (5 / 10 ^ 2)) b v"

text \<open>
  What a grid point computed, read back from the state it leaves: the two
  distances and the overlap both checks test.
\<close>

definition smoothed_new_d :: "dist_fn \<Rightarrow> BestTrack \<Rightarrow> 's search_state \<Rightarrow> real" where
  "smoothed_new_d distf b st = fst (u_cum_dist distf b (smoothed_dict st))"

definition filtered_new_d :: "dist_fn \<Rightarrow> BestTrack \<Rightarrow> 's search_state \<Rightarrow> real" where
  "filtered_new_d distf b st = fst (u_cum_dist distf b (filtered_dict st))"

definition new_overlap :: "dist_fn \<Rightarrow> BestTrack \<Rightarrow> 's search_state \<Rightarrow> nat" where
  "new_overlap distf b st = snd (u_cum_dist distf b (filtered_dict st))"

text \<open>
  The search described independently of the two checks.  \<open>grid_values\<close> lists,
  for the grid points in iteration order, the scale factors with the smoothed
  distance, the filtered distance and the overlap recomputed there (the
  smoother and the two dictionaries are carried from point to point).
  \<open>candidates\<close> are the triples a grid point offers, smoothed before filtered,
  when its overlap is at least 6.  \<open>records\<close> keeps the candidates that are
  strictly below the minimum reached before them, and \<open>log_of\<close> is what the
  adoption of one prints.
\<close>

type_synonym grid_value = "real \<times> real \<times> real \<times> real \<times> nat"

fun grid_values ::
  "dist_fn \<Rightarrow> 's smoother_fn \<Rightarrow> BestTrack \<Rightarrow> VortTrack
     \<Rightarrow> 's \<times> (date \<times> pos) list \<times> (date \<times> pos) list \<Rightarrow> (real \<times> real) list
     \<Rightarrow> error + grid_value list" where
  "grid_values distf process_data b v (s, sd, fd) [] = Inr []"
| "grid_values distf process_data b v (s, sd, fd) ((q_param, r_param) # grid) =
     (case process_data s (vortmaxes v) q_param r_param of
        Inl e \<Rightarrow> Inl e
      | Inr (smoothed_pos, filtered_pos, s') \<Rightarrow>
          (case fill_dicts smoothed_pos filtered_pos (sd, fd)
                  (List.enumerate 0 (map fst (vortmax_by_date v))) of
             Inl e \<Rightarrow> Inl e
           | Inr (sd', fd') \<Rightarrow>
               (case grid_values distf process_data b v (s', sd', fd') grid of
                  Inl e \<Rightarrow> Inl e
                | Inr vals \<Rightarrow>
                    Inr ((q_param, r_param, fst (u_cum_dist distf b sd'),
                          fst (u_cum_dist distf b fd'), snd (u_cum_dist distf b fd')) # vals))))"

definition point_candidates :: "grid_value \<Rightarrow> (param \<times> real) list" where
  "point_candidates = (\<lambda>(q_param, r_param, s, f, ov).
     if 6 \<le> ov then [((q_param, r_param, Smoothed), s), ((q_param, r_param, Filtered), f)]
     else [])"

definition candidates :: "grid_value list \<Rightarrow> (param \<times> real) list" where
  "candidates vals = concat (map point_candidates vals)"

fun records :: "real \<Rightarrow> (param \<times> real) list \<Rightarrow> (param \<times> real) list" where
  "records m [] = []"
| "records m ((p, d) # cs) = (if d < m then (p, d) # records d cs else records m cs)"

definition log_of :: "param \<times> real \<Rightarrow> printout list" where
  "log_of = (\<lambda>(p, d).
     (case snd (snd p) of
        Smoothed \<Rightarrow> [PrintNewOptimum p, PrintMinDist d]
      | Filtered \<Rightarrow> [PrintNewOptimum p]))"

text \<open>The loop body applied along a list of grid points.\<close>

fun run_points ::
  "dist_fn \<Rightarrow> 's smoother_fn \<Rightarrow> BestTrack \<Rightarrow> VortTrack \<Rightarrow> 's search_state
     \<Rightarrow> (real \<times> real) list \<Rightarrow> error + 's search_state" where
  "run_points distf process_data b v st [] = Inr st"
| "run_points distf process_data b v st ((q_param, r_param) # grid) =
     (case grid_point distf process_data b v q_param r_param st of
        Inl e \<Rightarrow> Inl e
      | Inr st' \<Rightarrow> run_points distf process_data b v st' grid)"

section \<open>Example inputs\<close>

text \<open>
  Concrete tracks on which the theorems below are instantiated.  \<open>ex_dist\<close>
  stands in for the geometry helper; it agrees with the straight-line
  distance wherever two positions differ along one axis only, as the
  positions of the tracks below do.
\<close>

definition ex_dist :: dist_fn where
  "ex_dist p q = \<bar>fst p - fst q\<bar> + \<bar>snd p - snd q\<bar>"

definition ex_best3 :: BestTrack where
  "ex_best3 = \<lparr> ident = 0, lons = [0, 1, 2], lats = [0, 0, 0], dates = [1, 2, 3] \<rparr>"

definition ex_vort3 :: VortTrack where
  "ex_vort3 = \<lparr> vort_ident = 0, vort_dates = [1, 2, 3],
     vortmax_by_date = [(1, (0, 0)), (2, (1, 1 / 2)), (3, (2, 0))],
     vortmaxes = [(0, 0), (1, 1 / 2), (2, 0)] \<rparr>"

definition ex_index3 :: "date \<rightharpoonup> VortTrack list" where
  "ex_index3 = map_of [(1, [ex_vort3]), (2, [ex_vort3]), (3, [ex_vort3])]"

definition ex_best1 :: BestTrack where
  "ex_best1 = \<lparr> ident = 1, lons = [0], lats = [0], dates = [1] \<rparr>"

definition ex_vort_far :: VortTrack where
  "ex_vort_far = \<lparr> vort_ident = 1, vort_dates = [1],
     vortmax_by_date = [(1, (200, 0))], vortmaxes = [(200, 0)] \<rparr>"

definition ex_index_far :: "date \<rightharpoonup> VortTrack list" where
  "ex_index_far = map_of [(1, [ex_vort_far])]"

definition ex_vort_same :: VortTrack where
  "ex_vort_same = \<lparr> vort_ident = 4, vort_dates = [1],
     vortmax_by_date = [(1, (0, 0))], vortmaxes = [(0, 0)] \<rparr>"

definition ex_best_empty :: BestTrack where
  "ex_best_empty = \<lparr> ident = 2, lons = [], lats = [], dates = [] \<rparr>"

definition ex_best2 :: BestTrack where
  "ex_best2 = \<lparr> ident = 3, lons = [0, 0], lats = [0, 0], dates = [1, 2] \<rparr>"

definition ex_vort_far2 :: VortTrack where
  "ex_vort_far2 = \<lparr> vort_ident = 3, vort_dates = [1, 2],
     vortmax_by_date = [(1, (200, 0)), (2, (300, 0))], vortmaxes = [(200, 0), (300, 0)] \<rparr>"

definition ex_index_far2 :: "date \<rightharpoonup> VortTrack list" where
  "ex_index_far2 = map_of [(1, [ex_vort_far2]), (2, [ex_vort_far2])]"

definition ex_diverged :: Match where
  "ex_diverged = \<lparr> best_track = ex_best2, vort_track = ex_vort_far2, cum_dist = 200,
     overlap = 1, is_too_far_away = True, overlap_start = 1, overlap_end = 2 \<rparr>"

definition ex_match3 :: Match where
  "ex_match3 = \<lparr> best_track = ex_best3, vort_track = ex_vort3, cum_dist = 1 / 2, overlap = 3,
     is_too_far_away = False, overlap_start = 1, overlap_end = 3 \<rparr>"

text \<open>
  A track pair with six common dates and a stand-in smoother that halves the
  longitude (smoothed) or takes three quarters of it (filtered); the states
  the search reaches on them.
\<close>

definition ex_best6 :: BestTrack where
  "ex_best6 = \<lparr> ident = 6, lons = [0, 0, 0, 0, 0, 0], lats = [0, 0, 0, 0, 0, 0],
     dates = [1, 2, 3, 4, 5, 6] \<rparr>"

definition ex_vort6 :: VortTrack where
  "ex_vort6 = \<lparr> vort_ident = 6, vort_dates = [1, 2, 3, 4, 5, 6],
     vortmax_by_date = [(1, (2, 0)), (2, (2, 0)), (3, (2, 0)), (4, (2, 0)), (5, (2, 0)),
       (6, (2, 0))],
     vortmaxes = [(2, 0), (2, 0), (2, 0), (2, 0), (2, 0), (2, 0)] \<rparr>"

definition ex_smoother :: "unit smoother_fn" where
  "ex_smoother s raw q_param r_param =
     Inr (map (\<lambda>p. (fst p / 2, snd p)) raw, map (\<lambda>p. (3 * fst p / 4, snd p)) raw, s)"

definition ex_found :: "real \<Rightarrow> real \<Rightarrow> unit search_state" where
  "ex_found q r =
     \<lparr> min_d = 6, optimum_param = Some (q, r, Smoothed),
       smoothed_dict = [(1, (1, 0)), (2, (1, 0)), (3, (1, 0)), (4, (1, 0)), (5, (1, 0)),
         (6, (1, 0))],
       filtered_dict = [(1, (3 / 2, 0)), (2, (3 / 2, 0)), (3, (3 / 2, 0)), (4, (3 / 2, 0)),
         (5, (3 / 2, 0)), (6, (3 / 2, 0))],
       printed = [PrintBaseline 24, PrintNewOptimum (q, r, Smoothed), PrintMinDist 6],
       rts_smoother = () \<rparr>"

definition ex_gated :: "unit search_state" where
  "ex_gated =
     \<lparr> min_d = 1 / 4, optimum_param = None,
       smoothed_dict = [(1, (0, 0)), (2, (1 / 2, 1 / 2)), (3, (1, 0))],
       filtered_dict = [(1, (0, 0)), (2, (3 / 4, 1 / 2)), (3, (3 / 2, 0))],
       printed = [PrintBaseline (1 / 4)], rts_smoother = () \<rparr>"

section \<open>The engine as a run over its joint visits\<close>

lemma run_visits_append:
  "run_visits distf ms (xs @ ys) =
     (case run_visits distf ms xs of Inl e \<Rightarrow> Inl e | Inr ms' \<Rightarrow> run_visits distf ms' ys)"
  by (induction xs arbitrary: ms) (auto split: sum.splits)

lemma visit_tracks_run:
  "visit_tracks distf b lon lat date ms vs =
     run_visits distf ms (map (\<lambda>v. (b, lon, lat, date, v)) vs)"
  by (induction vs arbitrary: ms) (auto split: sum.splits)

lemma walk_track_run:
  "walk_track distf idx b ms obs = run_visits distf ms (track_visits idx b obs)"
  by (induction obs arbitrary: ms)
     (auto simp: track_visits_def run_visits_append visit_tracks_run
           split: sum.splits option.splits)

lemma match_loop_run:
  "match_loop distf idx ms bs = run_visits distf ms (joint_visits idx bs)"
  by (induction bs arbitrary: ms)
     (auto simp: joint_visits_def run_visits_append walk_track_run split: sum.splits)

lemma visit_other:
  "visit distf b lon lat date ms v = Inr ms' \<Longrightarrow> k \<noteq> (b, v) \<Longrightarrow> map_of ms' k = map_of ms k"
  by (auto simp: visit_def add_dist_def Match_init_def update_conv' Let_def
           split: option.splits if_splits)

lemma visit_Some:
  "visit distf b lon lat date ms v = Inr ms' \<Longrightarrow> map_of ms (b, v) = Some m \<Longrightarrow>
   \<exists>p. map_of (vortmax_by_date v) date = Some p \<and>
       map_of ms' (b, v) = Some (m\<lparr> overlap := overlap m + 1,
          cum_dist := cum_dist m + distf p (lon, lat),
          is_too_far_away :=
            (is_too_far_away m \<or> cum_dist m + distf p (lon, lat) > CUM_DIST_CUTOFF) \<rparr>)"
  by (auto simp: visit_def add_dist_def update_conv' Let_def
           split: option.splits if_splits)

lemma visit_None:
  "visit distf b lon lat date ms v = Inr ms' \<Longrightarrow> map_of ms (b, v) = None \<Longrightarrow>
   \<exists>p. map_of (vortmax_by_date v) date = Some p \<and> dates b \<noteq> [] \<and> vort_dates v \<noteq> [] \<and>
       map_of ms' (b, v) = Some \<lparr> best_track = b, vort_track = v,
          cum_dist = distf p (lon, lat), overlap = 1,
          is_too_far_away = (distf p (lon, lat) > CUM_DIST_CUTOFF),
          overlap_start = max (hd (dates b)) (hd (vort_dates v)),
          overlap_end = min (last (dates b)) (last (vort_dates v)) \<rparr>"
  by (auto simp: visit_def add_dist_def Match_init_def update_conv' Let_def
           split: option.splits if_splits)

lemma visit_distinct:
  "visit distf b lon lat date ms v = Inr ms' \<Longrightarrow> distinct (map fst ms) \<Longrightarrow> distinct (map fst ms')"
  by (auto simp: visit_def add_dist_def Match_init_def distinct_update Let_def
           split: option.splits if_splits)

lemma exceeds_Cons:
  "(\<exists>n\<in>{1..Suc (length ds)}. c + sum_list (take n (d # ds)) > (C::real)) \<longleftrightarrow>
   (c + d > C \<or> (\<exists>n\<in>{1..length ds}. (c + d) + sum_list (take n ds) > C))"
proof
  assume "\<exists>n\<in>{1..Suc (length ds)}. c + sum_list (take n (d # ds)) > C"
  then obtain n where n: "1 \<le> n" "n \<le> Suc (length ds)" "c + sum_list (take n (d # ds)) > C"
    by auto
  then obtain k where k: "n = Suc k" by (cases n) auto
  show "c + d > C \<or> (\<exists>n\<in>{1..length ds}. (c + d) + sum_list (take n ds) > C)"
  proof (cases k)
    case 0
    with n k show ?thesis by simp
  next
    case (Suc j)
    with n k have "k \<in> {1..length ds}" "(c + d) + sum_list (take k ds) > C"
      by (auto simp: add.assoc)
    then show ?thesis by blast
  qed
next
  assume "c + d > C \<or> (\<exists>n\<in>{1..length ds}. (c + d) + sum_list (take n ds) > C)"
  then show "\<exists>n\<in>{1..Suc (length ds)}. c + sum_list (take n (d # ds)) > C"
  proof
    assume "c + d > C"
    then have "c + sum_list (take 1 (d # ds)) > C" by simp
    then show ?thesis by (intro bexI[of _ 1]) auto
  next
    assume "\<exists>n\<in>{1..length ds}. (c + d) + sum_list (take n ds) > C"
    then obtain n where "n \<in> {1..length ds}" "(c + d) + sum_list (take n ds) > C" by blast
    then have "Suc n \<in> {1..Suc (length ds)}" "c + sum_list (take (Suc n) (d # ds)) > C"
      by (auto simp: add.assoc)
    then show ?thesis by blast
  qed
qed


lemma run_Some:
  "run_visits distf ms evs = Inr ms' \<Longrightarrow> map_of ms k = Some m \<Longrightarrow>
   \<exists>m'. map_of ms' k = Some m' \<and>
     overlap m' = overlap m + length (filter (\<lambda>ev. visit_key ev = k) evs) \<and>
     cum_dist m' =
       cum_dist m + sum_list (map (visit_dist distf) (filter (\<lambda>ev. visit_key ev = k) evs)) \<and>
     (is_too_far_away m' \<longleftrightarrow> is_too_far_away m \<or>
        (\<exists>n\<in>{1..length (filter (\<lambda>ev. visit_key ev = k) evs)}.
           cum_dist m + sum_list (take n (map (visit_dist distf)
              (filter (\<lambda>ev. visit_key ev = k) evs))) > CUM_DIST_CUTOFF)) \<and>
     best_track m' = best_track m \<and> vort_track m' = vort_track m \<and>
     overlap_start m' = overlap_start m \<and> overlap_end m' = overlap_end m"
proof (induction evs arbitrary: ms m)
  case Nil
  then show ?case by simp
next
  case (Cons ev evs)
  obtain b lon lat date v where ev: "ev = (b, lon, lat, date, v)"
    by (cases ev) auto
  from Cons.prems(1) ev obtain ms1 where
    step: "visit distf b lon lat date ms v = Inr ms1" and
    rest: "run_visits distf ms1 evs = Inr ms'"
    by (auto split: sum.splits)
  show ?case
  proof (cases "k = (b, v)")
    case False
    with step Cons.prems(2) have "map_of ms1 k = Some m"
      by (simp add: visit_other)
    from Cons.IH[OF rest this] False ev show ?thesis
      by (simp add: visit_key_def)
  next
    case True
    from visit_Some[OF step] Cons.prems(2) True obtain p where
      p: "map_of (vortmax_by_date v) date = Some p" and
      m1: "map_of ms1 k = Some (m\<lparr> overlap := overlap m + 1,
          cum_dist := cum_dist m + distf p (lon, lat),
          is_too_far_away :=
            (is_too_far_away m \<or> cum_dist m + distf p (lon, lat) > CUM_DIST_CUTOFF) \<rparr>)"
      by auto
    have d: "visit_dist distf ev = distf p (lon, lat)"
      using p ev by (simp add: visit_dist_def)
    have f: "filter (\<lambda>ev. visit_key ev = k) (ev # evs) = ev # filter (\<lambda>ev. visit_key ev = k) evs"
      using True ev by (simp add: visit_key_def)
    from Cons.IH[OF rest m1] obtain m' where
      m': "map_of ms' k = Some m'"
      "overlap m' = overlap m + 1 + length (filter (\<lambda>ev. visit_key ev = k) evs)"
      "cum_dist m' = cum_dist m + distf p (lon, lat) +
          sum_list (map (visit_dist distf) (filter (\<lambda>ev. visit_key ev = k) evs))"
      "is_too_far_away m' \<longleftrightarrow>
         (is_too_far_away m \<or> cum_dist m + distf p (lon, lat) > CUM_DIST_CUTOFF) \<or>
         (\<exists>n\<in>{1..length (filter (\<lambda>ev. visit_key ev = k) evs)}.
           cum_dist m + distf p (lon, lat) + sum_list (take n (map (visit_dist distf)
              (filter (\<lambda>ev. visit_key ev = k) evs))) > CUM_DIST_CUTOFF)"
      "best_track m' = best_track m" "vort_track m' = vort_track m"
      "overlap_start m' = overlap_start m" "overlap_end m' = overlap_end m"
      by auto
    have fl: "is_too_far_away m' \<longleftrightarrow> is_too_far_away m \<or>
        (\<exists>n\<in>{1..length (filter (\<lambda>ev. visit_key ev = k) (ev # evs))}.
           cum_dist m + sum_list (take n (map (visit_dist distf)
              (filter (\<lambda>ev. visit_key ev = k) (ev # evs)))) > CUM_DIST_CUTOFF)"
      unfolding f list.map length_Cons d
      using exceeds_Cons[of "map (visit_dist distf) (filter (\<lambda>ev. visit_key ev = k) evs)"
          CUM_DIST_CUTOFF "cum_dist m" "distf p (lon, lat)"] m'(4)
      by auto
    show ?thesis
      using m'(1,2,3,5,6,7,8) fl unfolding f d by (auto simp: d)
  qed
qed

lemma run_None_absent:
  "run_visits distf ms evs = Inr ms' \<Longrightarrow> map_of ms k = None \<Longrightarrow>
   filter (\<lambda>ev. visit_key ev = k) evs = [] \<Longrightarrow> map_of ms' k = None"
proof (induction evs arbitrary: ms)
  case Nil
  then show ?case by simp
next
  case (Cons ev evs)
  obtain b lon lat date v where ev: "ev = (b, lon, lat, date, v)"
    by (cases ev) auto
  from Cons.prems(1) ev obtain ms1 where
    step: "visit distf b lon lat date ms v = Inr ms1" and
    rest: "run_visits distf ms1 evs = Inr ms'"
    by (auto split: sum.splits)
  from Cons.prems(3) ev have ne: "k \<noteq> (b, v)" and f: "filter (\<lambda>ev. visit_key ev = k) evs = []"
    by (auto simp: visit_key_def split: if_splits)
  from step ne Cons.prems(2) have "map_of ms1 k = None" by (simp add: visit_other)
  from Cons.IH[OF rest this f] show ?case .
qed

lemma run_None_present:
  "run_visits distf ms evs = Inr ms' \<Longrightarrow> map_of ms (b, v) = None \<Longrightarrow>
   filter (\<lambda>ev. visit_key ev = (b, v)) evs \<noteq> [] \<Longrightarrow>
   \<exists>m'. map_of ms' (b, v) = Some m' \<and>
     overlap m' = length (filter (\<lambda>ev. visit_key ev = (b, v)) evs) \<and>
     cum_dist m' = sum_list (map (visit_dist distf) (filter (\<lambda>ev. visit_key ev = (b, v)) evs)) \<and>
     (is_too_far_away m' \<longleftrightarrow>
        (\<exists>n\<in>{1..length (filter (\<lambda>ev. visit_key ev = (b, v)) evs)}.
           sum_list (take n (map (visit_dist distf)
              (filter (\<lambda>ev. visit_key ev = (b, v)) evs))) > CUM_DIST_CUTOFF)) \<and>
     best_track m' = b \<and> vort_track m' = v \<and>
     dates b \<noteq> [] \<and> vort_dates v \<noteq> [] \<and>
     overlap_start m' = max (hd (dates b)) (hd (vort_dates v)) \<and>
     overlap_end m' = min (last (dates b)) (last (vort_dates v))"
proof (induction evs arbitrary: ms)
  case Nil
  then show ?case by simp
next
  case (Cons ev evs)
  obtain b1 lon lat date v1 where ev: "ev = (b1, lon, lat, date, v1)"
    by (cases ev) auto
  from Cons.prems(1) ev obtain ms1 where
    step: "visit distf b1 lon lat date ms v1 = Inr ms1" and
    rest: "run_visits distf ms1 evs = Inr ms'"
    by (auto split: sum.splits)
  show ?case
  proof (cases "(b, v) = (b1, v1)")
    case False
    with step Cons.prems(2) have n1: "map_of ms1 (b, v) = None"
      by (simp add: visit_other)
    from False ev have f: "filter (\<lambda>ev. visit_key ev = (b, v)) (ev # evs) =
        filter (\<lambda>ev. visit_key ev = (b, v)) evs"
      by (auto simp: visit_key_def)
    from Cons.IH[OF rest n1] Cons.prems(3) show ?thesis unfolding f by simp
  next
    case True
    then have eq: "b1 = b" "v1 = v" by auto
    from visit_None[OF step] Cons.prems(2) eq obtain p where
      p: "map_of (vortmax_by_date v) date = Some p" and ne: "dates b \<noteq> []" "vort_dates v \<noteq> []" and
      m1: "map_of ms1 (b, v) = Some \<lparr> best_track = b, vort_track = v,
          cum_dist = distf p (lon, lat), overlap = 1,
          is_too_far_away = (distf p (lon, lat) > CUM_DIST_CUTOFF),
          overlap_start = max (hd (dates b)) (hd (vort_dates v)),
          overlap_end = min (last (dates b)) (last (vort_dates v)) \<rparr>"
      by auto
    have d: "visit_dist distf ev = distf p (lon, lat)"
      using p ev eq by (simp add: visit_dist_def)
    have f: "filter (\<lambda>ev. visit_key ev = (b, v)) (ev # evs) =
        ev # filter (\<lambda>ev. visit_key ev = (b, v)) evs"
      using eq ev by (simp add: visit_key_def)
    from run_Some[OF rest m1] obtain m' where
      m': "map_of ms' (b, v) = Some m'"
      "overlap m' = 1 + length (filter (\<lambda>ev. visit_key ev = (b, v)) evs)"
      "cum_dist m' = distf p (lon, lat) +
          sum_list (map (visit_dist distf) (filter (\<lambda>ev. visit_key ev = (b, v)) evs))"
      "is_too_far_away m' \<longleftrightarrow>
         distf p (lon, lat) > CUM_DIST_CUTOFF \<or>
         (\<exists>n\<in>{1..length (filter (\<lambda>ev. visit_key ev = (b, v)) evs)}.
           distf p (lon, lat) + sum_list (take n (map (visit_dist distf)
              (filter (\<lambda>ev. visit_key ev = (b, v)) evs))) > CUM_DIST_CUTOFF)"
      "best_track m' = b" "vort_track m' = v"
      "overlap_start m' = max (hd (dates b)) (hd (vort_dates v))"
      "overlap_end m' = min (last (dates b)) (last (vort_dates v))"
      by auto
    have fl: "is_too_far_away m' \<longleftrightarrow>
        (\<exists>n\<in>{1..length (filter (\<lambda>ev. visit_key ev = (b, v)) (ev # evs))}.
           sum_list (take n (map (visit_dist distf)
              (filter (\<lambda>ev. visit_key ev = (b, v)) (ev # evs)))) > CUM_DIST_CUTOFF)"
      unfolding f list.map length_Cons d
      using exceeds_Cons[of "map (visit_dist distf) (filter (\<lambda>ev. visit_key ev = (b, v)) evs)"
          CUM_DIST_CUTOFF 0 "distf p (lon, lat)"] m'(4)
      by auto
    show ?thesis
      using m'(1,2,3,5,6,7,8) fl ne unfolding f by (auto simp: d)
  qed
qed

lemma run_distinct:
  "run_visits distf ms evs = Inr ms' \<Longrightarrow> distinct (map fst ms) \<Longrightarrow> distinct (map fst ms')"
proof (induction evs arbitrary: ms)
  case Nil
  then show ?case by simp
next
  case (Cons ev evs)
  obtain b lon lat date v where ev: "ev = (b, lon, lat, date, v)"
    by (cases ev) auto
  from Cons.prems(1) ev obtain ms1 where
    step: "visit distf b lon lat date ms v = Inr ms1" and
    rest: "run_visits distf ms1 evs = Inr ms'"
    by (auto split: sum.splits)
  from Cons.IH[OF rest visit_distinct[OF step Cons.prems(2)]] show ?case .
qed


lemma visit_succeeds:
  "vort_dates v \<noteq> [] \<Longrightarrow> dates b \<noteq> [] \<Longrightarrow> map_of (vortmax_by_date v) date \<noteq> None \<Longrightarrow>
   \<exists>ms'. visit distf b lon lat date ms v = Inr ms'"
  by (auto simp: visit_def add_dist_def Match_init_def Let_def split: option.splits)

lemma run_succeeds:
  "\<forall>ev\<in>set evs. visit_ok ev \<and> dates (fst ev) \<noteq> [] \<Longrightarrow> \<exists>ms'. run_visits distf ms evs = Inr ms'"
proof (induction evs arbitrary: ms)
  case Nil
  then show ?case by simp
next
  case (Cons ev evs)
  obtain b lon lat date v where ev: "ev = (b, lon, lat, date, v)"
    by (cases ev) auto
  with Cons.prems have "vort_dates v \<noteq> []" "dates b \<noteq> []" "map_of (vortmax_by_date v) date \<noteq> None"
    by (auto simp: visit_ok_def map_of_eq_None_iff)
  from visit_succeeds[OF this] obtain ms1 where "visit distf b lon lat date ms v = Inr ms1"
    by blast
  moreover from Cons.IH[of ms1] Cons.prems obtain ms' where "run_visits distf ms1 evs = Inr ms'"
    by auto
  ultimately show ?case using ev by simp
qed

lemma track_visits_fst:
  "ev \<in> set (track_visits idx b obs) \<Longrightarrow> fst ev = b \<and> (\<exists>lon lat date. (lon, lat, date) \<in> set obs)"
  by (auto simp: track_visits_def split: option.splits)

lemma joint_visits_fst:
  "ev \<in> set (joint_visits idx bs) \<Longrightarrow> fst ev \<in> set bs \<and> dates (fst ev) \<noteq> []"
proof -
  assume "ev \<in> set (joint_visits idx bs)"
  then obtain b where b: "b \<in> set bs" "ev \<in> set (track_visits idx b (observations b))"
    by (auto simp: joint_visits_def)
  from track_visits_fst[OF b(2)] have "fst ev = b" "observations b \<noteq> []" by auto
  then have "dates b \<noteq> []" by (auto simp: observations_def)
  with b \<open>fst ev = b\<close> show ?thesis by simp
qed

lemma map_of_distinct_filter:
  "distinct (map fst ms) \<Longrightarrow> map_of ms k = Some m \<Longrightarrow> filter (\<lambda>km. fst km = k) ms = [(k, m)]"
proof (induction ms)
  case Nil
  then show ?case by simp
next
  case (Cons km ms)
  show ?case
  proof (cases "fst km = k")
    case True
    with Cons.prems have "snd km = m" "k \<notin> fst ` set ms" by auto
    then have "filter (\<lambda>km. fst km = k) ms = []"
      by (auto simp: filter_empty_conv)
    with True \<open>snd km = m\<close> show ?thesis by (cases km) auto
  next
    case False
    with Cons show ?thesis by auto
  qed
qed

lemma match_entry:
  assumes "match distf idx bs = Inr ms" and "((b, v), m) \<in> set ms"
  shows "map_of ms (b, v) = Some m \<and> pair_visits idx bs b v \<noteq> [] \<and> b \<in> set bs"
proof -
  from assms(1) have run: "run_visits distf [] (joint_visits idx bs) = Inr ms"
    by (simp add: match_def match_loop_run)
  from run_distinct[OF run] have dist: "distinct (map fst ms)" by simp
  with assms(2) have look: "map_of ms (b, v) = Some m" by simp
  have ne: "pair_visits idx bs b v \<noteq> []"
  proof
    assume "pair_visits idx bs b v = []"
    then have "filter (\<lambda>ev. visit_key ev = (b, v)) (joint_visits idx bs) = []"
      by (simp add: pair_visits_def)
    from run_None_absent[OF run _ this] look show False by simp
  qed
  then obtain ev where "ev \<in> set (joint_visits idx bs)" "visit_key ev = (b, v)"
    by (auto simp: pair_visits_def filter_empty_conv)
  with joint_visits_fst[of ev idx bs] have "b \<in> set bs"
    by (cases ev) (auto simp: visit_key_def)
  with look ne show ?thesis by simp
qed

lemma match_pair:
  assumes "match distf idx bs = Inr ms" and "pair_visits idx bs b v \<noteq> []"
  shows "\<exists>m. map_of ms (b, v) = Some m \<and>
     overlap m = length (pair_visits idx bs b v) \<and>
     cum_dist m = sum_list (pair_dists distf idx bs b v) \<and>
     (is_too_far_away m \<longleftrightarrow>
        (\<exists>n\<in>{1..length (pair_dists distf idx bs b v)}.
           sum_list (take n (pair_dists distf idx bs b v)) > CUM_DIST_CUTOFF)) \<and>
     best_track m = b \<and> vort_track m = v \<and>
     dates b \<noteq> [] \<and> vort_dates v \<noteq> [] \<and>
     overlap_start m = max (hd (dates b)) (hd (vort_dates v)) \<and>
     overlap_end m = min (last (dates b)) (last (vort_dates v))"
proof -
  from assms(1) have run: "run_visits distf [] (joint_visits idx bs) = Inr ms"
    by (simp add: match_def match_loop_run)
  from run_None_present[OF run, of b v] assms(2) show ?thesis
    by (simp add: pair_visits_def pair_dists_def)
qed

section \<open>Claims about the association engine\<close>

lemmas ex_defs = ex_dist_def ex_best3_def ex_vort3_def ex_index3_def ex_best1_def
  ex_vort_far_def ex_index_far_def ex_best_empty_def ex_best2_def ex_vort_far2_def
  ex_index_far2_def ex_diverged_def ex_match3_def
lemmas engine_defs = match_def observations_def visit_def add_dist_def Match_init_def
  CUM_DIST_CUTOFF_def Let_def joint_visits_def track_visits_def pair_visits_def
  pair_dists_def visit_dist_def visit_key_def visit_ok_def

text \<open>
  C1.  When every joint visit of the run can be processed, the engine returns,
  and for every best track and vorticity track with at least one joint visit
  its result holds exactly one entry under that pair, whose overlap is the
  number of joint visits of the pair (the creating visit counts one, as the
  constructor starts the overlap at 1, and every repeat visit adds one).
\<close>

theorem match_overlap_counts_joint_visits:
  assumes "\<forall>ev\<in>set (joint_visits idx bs). visit_ok ev"
    and "pair_visits idx bs b v \<noteq> []"
  shows "\<exists>ms m. match distf idx bs = Inr ms \<and>
           filter (\<lambda>km. fst km = (b, v)) ms = [((b, v), m)] \<and>
           overlap m = length (pair_visits idx bs b v)"
proof -
  from assms(1) have "\<forall>ev\<in>set (joint_visits idx bs). visit_ok ev \<and> dates (fst ev) \<noteq> []"
    using joint_visits_fst by blast
  from run_succeeds[OF this] obtain ms where
    run: "run_visits distf [] (joint_visits idx bs) = Inr ms" by blast
  then have ms: "match distf idx bs = Inr ms"
    by (simp add: match_def match_loop_run)
  from match_pair[OF ms assms(2)] obtain m where
    m: "map_of ms (b, v) = Some m" "overlap m = length (pair_visits idx bs b v)"
    by blast
  from run_distinct[OF run] have "distinct (map fst ms)" by simp
  from map_of_distinct_filter[OF this m(1)] ms m(2) show ?thesis by blast
qed

theorem match_overlap_counts_joint_visits_witness:
  "list_all visit_ok (joint_visits ex_index3 [ex_best3]) \<and>
   pair_visits ex_index3 [ex_best3] ex_best3 ex_vort3 \<noteq> [] \<and>
   (\<exists>ms m. match ex_dist ex_index3 [ex_best3] = Inr ms \<and>
      filter (\<lambda>km. fst km = (ex_best3, ex_vort3)) ms = [((ex_best3, ex_vort3), m)] \<and>
      overlap m = 3)"
proof -
  have h1: "\<forall>ev\<in>set (joint_visits ex_index3 [ex_best3]). visit_ok ev"
    by (simp add: engine_defs ex_defs)
  have h2: "pair_visits ex_index3 [ex_best3] ex_best3 ex_vort3 \<noteq> []"
    by (simp add: engine_defs ex_defs)
  have n: "length (pair_visits ex_index3 [ex_best3] ex_best3 ex_vort3) = 3"
    by (simp add: engine_defs ex_defs)
  from match_overlap_counts_joint_visits[OF h1 h2, of ex_dist] h1 h2 show ?thesis
    unfolding n list_all_iff by blast
qed

lemma ex_run3: "match ex_dist ex_index3 [ex_best3] = Inr [((ex_best3, ex_vort3), ex_match3)]"
  by (simp add: engine_defs ex_defs)

lemma ex_visit_diverged:
  "visit ex_dist ex_best2 0 0 2 [((ex_best2, ex_vort_far2), ex_diverged)] ex_vort_far2
     = Inr [((ex_best2, ex_vort_far2), ex_diverged\<lparr>cum_dist := 500, overlap := 2\<rparr>)]"
  by (simp add: engine_defs ex_defs)

text \<open>
  C2, as stated, fails: the engine has no validation of its inputs.  A best
  track without observations is walked zero times and the run ends normally,
  here with an empty result.
\<close>

theorem match_empty_reference_no_error:
  "match ex_dist ex_index3 [ex_best_empty] = Inr []"
  by (simp add: engine_defs ex_defs)

lemma match_loop_skip_empty:
  "match_loop distf idx ms bs = match_loop distf idx ms (filter (\<lambda>b. observations b \<noteq> []) bs)"
  by (induction bs arbitrary: ms) (auto split: sum.splits)

text \<open>
  C2, amended.  Best tracks without observations are skipped silently: the run
  equals the run without them, and a run over a single such track returns the
  empty result.  A vorticity track without dates is not rejected at the
  boundary either; it makes the run fail only when the constructor is reached
  for it on a first joint visit, and then with the IndexError of \<^verbatim>\<open>dates[0]\<close>.
\<close>

theorem match_no_input_validation:
  "match distf idx bs = match distf idx (filter (\<lambda>b. observations b \<noteq> []) bs) \<and>
   (observations b = [] \<longrightarrow> match distf idx [b] = Inr []) \<and>
   (vort_dates v = [] \<and> map_of ms (b', v) = None \<longrightarrow>
      visit distf b' lon lat date ms v = Inl IndexError)"
proof -
  have "match distf idx bs = match distf idx (filter (\<lambda>b. observations b \<noteq> []) bs)"
    unfolding match_def by (rule match_loop_skip_empty)
  moreover have "observations b = [] \<longrightarrow> match distf idx [b] = Inr []"
    by (simp add: match_def)
  moreover have "vort_dates v = [] \<and> map_of ms (b', v) = None \<longrightarrow>
      visit distf b' lon lat date ms v = Inl IndexError"
    by (simp add: visit_def Match_init_def)
  ultimately show ?thesis by blast
qed

theorem match_no_input_validation_witness:
  "observations ex_best_empty = [] \<and> match ex_dist ex_index3 [ex_best_empty] = Inr [] \<and>
   vort_dates (ex_vort3\<lparr>vort_dates := []\<rparr>) = [] \<and>
   map_of [] (ex_best3, ex_vort3\<lparr>vort_dates := []\<rparr>) = None \<and>
   visit ex_dist ex_best3 0 0 1 [] (ex_vort3\<lparr>vort_dates := []\<rparr>) = Inl IndexError"
proof -
  have h1: "observations ex_best_empty = []"
    by (simp add: observations_def ex_best_empty_def)
  have h2: "vort_dates (ex_vort3\<lparr>vort_dates := []\<rparr>) = [] \<and>
      map_of [] (ex_best3, ex_vort3\<lparr>vort_dates := []\<rparr>) = None"
    by simp
  note t = match_no_input_validation[where distf = ex_dist and idx = ex_index3
      and bs = "[ex_best_empty]" and b = ex_best_empty
      and v = "ex_vort3\<lparr>vort_dates := []\<rparr>" and ms = "[]" and b' = ex_best3
      and lon = 0 and lat = 0 and date = 1]
  from t h1 have "match ex_dist ex_index3 [ex_best_empty] = Inr []" by blast
  moreover from t h2 have
    "visit ex_dist ex_best3 0 0 1 [] (ex_vort3\<lparr>vort_dates := []\<rparr>) = Inl IndexError"
    by blast
  ultimately show ?thesis using h1 h2 by blast
qed

text \<open>
  C3.  Along the remaining observations of a best track, a pair whose flag is
  already set is updated on every later joint visit: when the walk returns,
  its overlap has grown by the number of those visits and its cumulative
  distance by the sum of their distances, and the flag is still set.  The
  same sums are added for a pair whose flag is clear (\<open>run_Some\<close>).
\<close>

theorem diverged_pair_keeps_accumulating:
  assumes "walk_track distf idx b ms obs = Inr ms'"
    and "map_of ms (b, v) = Some m"
    and "is_too_far_away m"
  shows "\<exists>m'. map_of ms' (b, v) = Some m' \<and> is_too_far_away m' \<and>
     overlap m' =
       overlap m + length (filter (\<lambda>ev. visit_key ev = (b, v)) (track_visits idx b obs)) \<and>
     cum_dist m' =
       cum_dist m + sum_list (map (visit_dist distf)
         (filter (\<lambda>ev. visit_key ev = (b, v)) (track_visits idx b obs)))"
proof -
  from assms(1) have "run_visits distf ms (track_visits idx b obs) = Inr ms'"
    by (simp add: walk_track_run)
  from run_Some[OF this assms(2)] assms(3) show ?thesis by blast
qed

theorem diverged_pair_keeps_accumulating_witness:
  "walk_track ex_dist ex_index_far2 ex_best2 [((ex_best2, ex_vort_far2), ex_diverged)] [(0, 0, 2)]
     = Inr [((ex_best2, ex_vort_far2), ex_diverged\<lparr>cum_dist := 500, overlap := 2\<rparr>)] \<and>
   map_of [((ex_best2, ex_vort_far2), ex_diverged)] (ex_best2, ex_vort_far2) = Some ex_diverged \<and>
   is_too_far_away ex_diverged \<and>
   (\<exists>m'. map_of [((ex_best2, ex_vort_far2), ex_diverged\<lparr>cum_dist := 500, overlap := 2\<rparr>)]
            (ex_best2, ex_vort_far2) = Some m' \<and> is_too_far_away m' \<and>
      overlap m' = overlap ex_diverged + 1 \<and> cum_dist m' = cum_dist ex_diverged + 300)"
proof -
  have h1: "walk_track ex_dist ex_index_far2 ex_best2
      [((ex_best2, ex_vort_far2), ex_diverged)] [(0, 0, 2)]
     = Inr [((ex_best2, ex_vort_far2), ex_diverged\<lparr>cum_dist := 500, overlap := 2\<rparr>)]"
    by (simp add: engine_defs ex_defs)
  have h2: "map_of [((ex_best2, ex_vort_far2), ex_diverged)] (ex_best2, ex_vort_far2)
     = Some ex_diverged" by simp
  have h3: "is_too_far_away ex_diverged" by (simp add: ex_diverged_def)
  have n: "filter (\<lambda>ev. visit_key ev = (ex_best2, ex_vort_far2))
      (track_visits ex_index_far2 ex_best2 [(0, 0, 2)]) = [(ex_best2, 0, 0, 2, ex_vort_far2)]"
    by (simp add: track_visits_def visit_key_def ex_index_far2_def)
  have d: "visit_dist ex_dist (ex_best2, 0, 0, 2, ex_vort_far2) = 300"
    by (simp add: visit_dist_def ex_vort_far2_def ex_dist_def)
  from diverged_pair_keeps_accumulating[OF h1 h2 h3] h1 h2 h3 show ?thesis
    unfolding n by (simp add: d)
qed

text \<open>
  C4.  In the result of a run, the flag of a match is set exactly when the
  cumulative distance after some joint visit of its pair is strictly above
  100.  A pair with a single joint visit at distance 200 ends with overlap 1,
  cumulative distance 200 and the flag set.
\<close>

theorem diverged_flag_iff_cutoff_exceeded:
  assumes "match distf idx bs = Inr ms" and "map_of ms (b, v) = Some m"
  shows "(is_too_far_away m \<longleftrightarrow>
           (\<exists>n\<in>{1..length (pair_dists distf idx bs b v)}.
              sum_list (take n (pair_dists distf idx bs b v)) > 100)) \<and>
         (pair_dists distf idx bs b v = [200] \<longrightarrow>
            overlap m = 1 \<and> cum_dist m = 200 \<and> is_too_far_away m)"
proof -
  from assms(2) have "((b, v), m) \<in> set ms" by (rule map_of_SomeD)
  from match_entry[OF assms(1) this] have "pair_visits idx bs b v \<noteq> []" by simp
  from match_pair[OF assms(1) this] assms(2) have
    ov: "overlap m = length (pair_visits idx bs b v)" and
    cd: "cum_dist m = sum_list (pair_dists distf idx bs b v)" and
    fl: "is_too_far_away m \<longleftrightarrow>
           (\<exists>n\<in>{1..length (pair_dists distf idx bs b v)}.
              sum_list (take n (pair_dists distf idx bs b v)) > 100)"
    by (auto simp: CUM_DIST_CUTOFF_def)
  have len: "length (pair_visits idx bs b v) = length (pair_dists distf idx bs b v)"
    by (simp add: pair_dists_def)
  have "pair_dists distf idx bs b v = [200] \<longrightarrow>
          overlap m = 1 \<and> cum_dist m = 200 \<and> is_too_far_away m"
  proof
    assume e: "pair_dists distf idx bs b v = [200]"
    have "is_too_far_away m" unfolding fl e by (intro bexI[of _ 1]) auto
    with ov cd len e show "overlap m = 1 \<and> cum_dist m = 200 \<and> is_too_far_away m" by simp
  qed
  with fl show ?thesis by blast
qed

theorem diverged_flag_iff_cutoff_exceeded_witness:
  "match ex_dist ex_index_far [ex_best1] = Inr [((ex_best1, ex_vort_far),
      \<lparr> best_track = ex_best1, vort_track = ex_vort_far, cum_dist = 200, overlap = 1,
        is_too_far_away = True, overlap_start = 1, overlap_end = 1 \<rparr>)] \<and>
   pair_dists ex_dist ex_index_far [ex_best1] ex_best1 ex_vort_far = [200] \<and>
   (\<exists>n\<in>{1..length [200::real]}. sum_list (take n [200::real]) > 100)"
proof -
  let ?m = "\<lparr> best_track = ex_best1, vort_track = ex_vort_far, cum_dist = 200, overlap = 1,
        is_too_far_away = True, overlap_start = 1, overlap_end = 1 \<rparr>"
  have h1: "match ex_dist ex_index_far [ex_best1] = Inr [((ex_best1, ex_vort_far), ?m)]"
    by (simp add: engine_defs ex_defs)
  have h2: "map_of [((ex_best1, ex_vort_far), ?m)] (ex_best1, ex_vort_far) = Some ?m" by simp
  have e: "pair_dists ex_dist ex_index_far [ex_best1] ex_best1 ex_vort_far = [200]"
    by (simp add: engine_defs ex_defs)
  from diverged_flag_iff_cutoff_exceeded[OF h1 h2] h1 e show ?thesis
    unfolding e by simp
qed

text \<open>
  C9.  Every match in the result of a run carries the two tracks of its key
  and the window the constructor computed from them: the later of the two
  first dates and the earlier of the two last dates.  A repeat visit of a
  pair leaves the tracks and the window of its match unchanged.
\<close>

theorem overlap_window_fixed_at_construction:
  "(match distf idx bs = Inr ms \<and> ((b, v), m) \<in> set ms \<longrightarrow>
      dates b \<noteq> [] \<and> vort_dates v \<noteq> [] \<and> best_track m = b \<and> vort_track m = v \<and>
      overlap_start m = max (hd (dates b)) (hd (vort_dates v)) \<and>
      overlap_end m = min (last (dates b)) (last (vort_dates v))) \<and>
   (visit distf b lon lat date ms0 v = Inr ms1 \<and> map_of ms0 (b, v) = Some m0 \<longrightarrow>
      (\<exists>m1. map_of ms1 (b, v) = Some m1 \<and>
         best_track m1 = best_track m0 \<and> vort_track m1 = vort_track m0 \<and>
         overlap_start m1 = overlap_start m0 \<and> overlap_end m1 = overlap_end m0))"
proof (intro conjI impI)
  assume a: "match distf idx bs = Inr ms \<and> ((b, v), m) \<in> set ms"
  then have e: "map_of ms (b, v) = Some m" "pair_visits idx bs b v \<noteq> []"
    using match_entry by blast+
  from a match_pair[OF _ e(2)] e(1) show
    "dates b \<noteq> []" "vort_dates v \<noteq> []" "best_track m = b" "vort_track m = v"
    "overlap_start m = max (hd (dates b)) (hd (vort_dates v))"
    "overlap_end m = min (last (dates b)) (last (vort_dates v))"
    by fastforce+
next
  assume a: "visit distf b lon lat date ms0 v = Inr ms1 \<and> map_of ms0 (b, v) = Some m0"
  then have "visit distf b lon lat date ms0 v = Inr ms1" "map_of ms0 (b, v) = Some m0" by auto
  from visit_Some[OF this] show "\<exists>m1. map_of ms1 (b, v) = Some m1 \<and>
         best_track m1 = best_track m0 \<and> vort_track m1 = vort_track m0 \<and>
         overlap_start m1 = overlap_start m0 \<and> overlap_end m1 = overlap_end m0"
    by auto
qed

theorem overlap_window_fixed_at_construction_witness:
  "match ex_dist ex_index3 [ex_best3] = Inr [((ex_best3, ex_vort3), ex_match3)] \<and>
   ((ex_best3, ex_vort3), ex_match3) \<in> set [((ex_best3, ex_vort3), ex_match3)] \<and>
   overlap_start ex_match3 = max (hd (dates ex_best3)) (hd (vort_dates ex_vort3)) \<and>
   overlap_end ex_match3 = min (last (dates ex_best3)) (last (vort_dates ex_vort3)) \<and>
   visit ex_dist ex_best2 0 0 2 [((ex_best2, ex_vort_far2), ex_diverged)] ex_vort_far2
     = Inr [((ex_best2, ex_vort_far2), ex_diverged\<lparr>cum_dist := 500, overlap := 2\<rparr>)] \<and>
   map_of [((ex_best2, ex_vort_far2), ex_diverged)] (ex_best2, ex_vort_far2) = Some ex_diverged \<and>
   (\<exists>m1. map_of [((ex_best2, ex_vort_far2), ex_diverged\<lparr>cum_dist := 500, overlap := 2\<rparr>)]
            (ex_best2, ex_vort_far2) = Some m1 \<and>
      overlap_start m1 = overlap_start ex_diverged \<and> overlap_end m1 = overlap_end ex_diverged)"
proof -
  have h1: "((ex_best3, ex_vort3), ex_match3) \<in> set [((ex_best3, ex_vort3), ex_match3)]"
    by simp
  have h2: "map_of [((ex_best2, ex_vort_far2), ex_diverged)] (ex_best2, ex_vort_far2)
      = Some ex_diverged" by simp
  note t = overlap_window_fixed_at_construction[where distf = ex_dist and idx = ex_index3
      and bs = "[ex_best3]" and ms = "[((ex_best3, ex_vort3), ex_match3)]"
      and b = ex_best3 and v = ex_vort3 and m = ex_match3]
  from t ex_run3 h1 have
    "overlap_start ex_match3 = max (hd (dates ex_best3)) (hd (vort_dates ex_vort3))"
    "overlap_end ex_match3 = min (last (dates ex_best3)) (last (vort_dates ex_vort3))"
    by blast+
  then show ?thesis using ex_run3 ex_visit_diverged h1 h2 by simp
qed

text \<open>
  C10.  Every match in the result of a run has overlap at least 1, so
  \<^verbatim>\<open>av_dist\<close> returns the quotient and does not raise.
\<close>

theorem match_overlap_positive:
  assumes "match distf idx bs = Inr ms" and "(k, m) \<in> set ms"
  shows "1 \<le> overlap m \<and> av_dist m = Inr (cum_dist m / real (overlap m))"
proof -
  obtain b v where k: "k = (b, v)" by (cases k)
  from match_entry[OF assms(1)] assms(2) k have
    e: "map_of ms (b, v) = Some m" "pair_visits idx bs b v \<noteq> []" by auto
  from match_pair[OF assms(1) e(2)] e(1) have "overlap m = length (pair_visits idx bs b v)"
    by auto
  with e(2) have "1 \<le> overlap m" by (cases "pair_visits idx bs b v") auto
  then show ?thesis by (simp add: av_dist_def)
qed

theorem match_overlap_positive_witness:
  "match ex_dist ex_index3 [ex_best3] = Inr [((ex_best3, ex_vort3), ex_match3)] \<and>
   ((ex_best3, ex_vort3), ex_match3) \<in> set [((ex_best3, ex_vort3), ex_match3)] \<and>
   1 \<le> overlap ex_match3 \<and> av_dist ex_match3 = Inr (1 / 6)"
proof -
  have h1: "((ex_best3, ex_vort3), ex_match3) \<in> set [((ex_best3, ex_vort3), ex_match3)]"
    by simp
  from match_overlap_positive[OF ex_run3 h1] have
    "1 \<le> overlap ex_match3" "av_dist ex_match3 = Inr (cum_dist ex_match3 / real (overlap ex_match3))"
    by blast+
  moreover have "cum_dist ex_match3 / real (overlap ex_match3) = 1 / 6"
    by (simp add: ex_match3_def)
  ultimately show ?thesis using ex_run3 h1 by simp
qed

section \<open>Claims about the aggregator\<close>

lemma init_combined_eq:
  "init_combined cm bs = (\<lambda>b. if b \<in> set bs then Some [] else cm b)"
  by (induction bs arbitrary: cm) (auto simp: fun_eq_iff)

lemma append_matches_eq:
  "\<forall>m\<in>set ms. best_track m \<in> dom cm \<Longrightarrow>
   append_matches cm (map MatchElem ms) =
     Inr (\<lambda>b. case cm b of None \<Rightarrow> None
               | Some l \<Rightarrow> Some (l @ filter (\<lambda>m. best_track m = b) ms))"
proof (induction ms arbitrary: cm)
  case Nil
  show ?case by (auto simp: fun_eq_iff split: option.splits)
next
  case (Cons m ms)
  from Cons.prems obtain l where l: "cm (best_track m) = Some l" by auto
  have "\<forall>m'\<in>set ms. best_track m' \<in> dom (cm(best_track m \<mapsto> l @ [m]))"
    using Cons.prems by auto
  note step = Cons.IH[OF this]
  have fn: "(\<lambda>b. case (cm(best_track m \<mapsto> l @ [m])) b of None \<Rightarrow> None
               | Some l' \<Rightarrow> Some (l' @ filter (\<lambda>m. best_track m = b) ms)) =
        (\<lambda>b. case cm b of None \<Rightarrow> None
               | Some l' \<Rightarrow> Some (l' @ filter (\<lambda>m'. best_track m' = b) (m # ms)))"
    using l by (auto simp: fun_eq_iff split: option.splits)
  have a: "append_matches cm (map MatchElem (m # ms)) =
      append_matches (cm(best_track m \<mapsto> l @ [m])) (map MatchElem ms)"
    using l by simp
  show ?case unfolding a step fn ..
qed

lemma append_all_eq:
  "\<forall>m\<in>set (concat mss). best_track m \<in> dom cm \<Longrightarrow>
   append_all cm (map MatchSeq mss) =
     Inr (\<lambda>b. case cm b of None \<Rightarrow> None
               | Some l \<Rightarrow> Some (l @ filter (\<lambda>m. best_track m = b) (concat mss)))"
proof (induction mss arbitrary: cm)
  case Nil
  show ?case by (auto simp: fun_eq_iff split: option.splits)
next
  case (Cons ms mss)
  let ?cm' = "\<lambda>b. case cm b of None \<Rightarrow> None
               | Some l \<Rightarrow> Some (l @ filter (\<lambda>m. best_track m = b) ms)"
  from Cons.prems have 1: "\<forall>m\<in>set ms. best_track m \<in> dom cm" by auto
  have d: "dom ?cm' = dom cm" by (auto split: option.splits)
  with Cons.prems have 2: "\<forall>m\<in>set (concat mss). best_track m \<in> dom ?cm'" by auto
  have i: "iterate (MatchSeq ms) = map MatchElem ms" by (simp add: iterate_def)
  show ?case
    unfolding list.map append_all.simps i append_matches_eq[OF 1] sum.case Cons.IH[OF 2]
    by (auto simp: fun_eq_iff split: option.splits)
qed

lemma combined_match_eq:
  assumes "\<forall>m\<in>set (concat mss). best_track m \<in> set bs"
  shows "combined_match bs (map MatchSeq mss) =
     Inr (\<lambda>b. if b \<in> set bs then Some (filter (\<lambda>m. best_track m = b) (concat mss)) else None)"
proof -
  have "dom (init_combined Map.empty bs) = set bs"
    by (auto simp: init_combined_eq split: if_splits)
  with assms have "\<forall>m\<in>set (concat mss). best_track m \<in> dom (init_combined Map.empty bs)"
    by simp
  from append_all_eq[OF this] show ?thesis
    unfolding combined_match_def by (auto simp: init_combined_eq fun_eq_iff)
qed

lemma mset_group_by:
  "distinct ks \<Longrightarrow>
   mset (concat (map (\<lambda>k. filter (\<lambda>x. f x = k) xs) ks)) = mset (filter (\<lambda>x. f x \<in> set ks) xs)"
proof (induction ks)
  case Nil
  then show ?case by simp
next
  case (Cons k ks)
  then have IH: "mset (concat (map (\<lambda>k. filter (\<lambda>x. f x = k) xs) ks)) =
      mset (filter (\<lambda>x. f x \<in> set ks) xs)" and nk: "k \<notin> set ks" by auto
  have "mset (filter (\<lambda>x. f x = k) xs) + mset (filter (\<lambda>x. f x \<in> set ks) xs) =
      mset (filter (\<lambda>x. f x \<in> set (k # ks)) xs)"
    using nk by (induction xs) auto
  with IH show ?case by simp
qed

lemma match_values_best_track:
  assumes "match distf idx bs = Inr out" and "m \<in> set (map snd out)"
  shows "best_track m \<in> set bs"
proof -
  from assms(2) obtain b v where "((b, v), m) \<in> set out" by auto
  from match_entry[OF assms(1) this] match_pair[OF assms(1), of b v] show ?thesis
    by auto
qed

text \<open>
  C5, as stated, fails: the result of the engine is the ordered dictionary,
  and the aggregator's inner loop iterates over its key tuples.  On the
  result of the three-date run the aggregator raises the AttributeError of
  \<^verbatim>\<open>.best_track\<close> read from a tuple.
\<close>

theorem combined_match_on_engine_output_raises:
  "match ex_dist ex_index3 [ex_best3] = Inr [((ex_best3, ex_vort3), ex_match3)] \<and>
   combined_match [ex_best3] [MatchDict [((ex_best3, ex_vort3), ex_match3)]]
     = Inl AttributeError"
  by (simp add: ex_run3 combined_match_def iterate_def)

text \<open>
  C5, amended.  Let the aggregator receive the best tracks and, for one or
  more runs of the engine over these best tracks, the sequence of the Match
  values of each result, in insertion order.  Then it returns a dictionary
  whose keys are exactly the supplied best tracks; each best track maps to
  the matches whose \<^verbatim>\<open>best_track\<close> it is, in input order, hence to the empty
  list when there are none; and the values, flattened, hold every match of
  the inputs exactly once.
\<close>

theorem combined_match_regroups:
  assumes "list_all2 (\<lambda>idx out. match distf idx best_tracks = Inr out) idxs outs"
  shows "\<exists>cm. combined_match best_tracks (map (\<lambda>out. MatchSeq (map snd out)) outs) = Inr cm \<and>
     dom cm = set best_tracks \<and>
     (\<forall>b\<in>set best_tracks.
        cm b = Some (filter (\<lambda>m. best_track m = b) (concat (map (map snd) outs)))) \<and>
     mset (flatten_combined cm best_tracks) = mset (concat (map (map snd) outs))"
proof -
  let ?all = "concat (map (map snd) outs)"
  let ?cm = "\<lambda>b. if b \<in> set best_tracks then Some (filter (\<lambda>m. best_track m = b) ?all)
                  else None"
  have refs: "\<forall>m\<in>set ?all. best_track m \<in> set best_tracks"
  proof
    fix m assume "m \<in> set ?all"
    then obtain out where o: "out \<in> set outs" "m \<in> set (map snd out)" by auto
    from assms o(1) obtain idx where "match distf idx best_tracks = Inr out"
      by (auto simp: list_all2_conv_all_nth in_set_conv_nth)
    from match_values_best_track[OF this o(2)] show "best_track m \<in> set best_tracks" .
  qed
  have arg: "map (\<lambda>out. MatchSeq (map snd out)) outs = map MatchSeq (map (map snd) outs)"
    by simp
  from combined_match_eq[OF refs] have
    cm: "combined_match best_tracks (map (\<lambda>out. MatchSeq (map snd out)) outs) = Inr ?cm"
    unfolding arg .
  have d: "dom ?cm = set best_tracks" by (auto split: if_splits)
  have "flatten_combined ?cm best_tracks =
      concat (map (\<lambda>b. filter (\<lambda>m. best_track m = b) ?all) (remdups best_tracks))"
    unfolding flatten_combined_def by (rule arg_cong[where f = concat]) auto
  then have "mset (flatten_combined ?cm best_tracks) =
      mset (filter (\<lambda>m. best_track m \<in> set (remdups best_tracks)) ?all)"
    by (simp add: mset_group_by)
  also have "\<dots> = mset ?all" using refs by (simp add: filter_id_conv)
  finally have fl: "mset (flatten_combined ?cm best_tracks) = mset ?all" .
  from cm d fl show ?thesis by (intro exI[of _ ?cm]) simp
qed

lemma ex_run3e: "match ex_dist ex_index3 [ex_best3, ex_best_empty] = Inr [((ex_best3, ex_vort3), ex_match3)]"
  by (simp add: engine_defs ex_defs)

theorem combined_match_regroups_witness:
  "list_all2 (\<lambda>idx out. match ex_dist idx [ex_best3, ex_best_empty] = Inr out)
     [ex_index3, ex_index3]
     [[((ex_best3, ex_vort3), ex_match3)], [((ex_best3, ex_vort3), ex_match3)]] \<and>
   (\<exists>cm. combined_match [ex_best3, ex_best_empty] [MatchSeq [ex_match3], MatchSeq [ex_match3]]
            = Inr cm \<and>
      cm ex_best3 = Some [ex_match3, ex_match3] \<and> cm ex_best_empty = Some [] \<and>
      mset (flatten_combined cm [ex_best3, ex_best_empty]) = mset [ex_match3, ex_match3])"
proof -
  have h: "list_all2 (\<lambda>idx out. match ex_dist idx [ex_best3, ex_best_empty] = Inr out)
     [ex_index3, ex_index3]
     [[((ex_best3, ex_vort3), ex_match3)], [((ex_best3, ex_vort3), ex_match3)]]"
    by (simp add: ex_run3e)
  have b: "best_track ex_match3 = ex_best3" "ex_best_empty \<noteq> ex_best3"
    by (simp_all add: ex_defs)
  from combined_match_regroups[OF h] obtain cm where
    cm: "combined_match [ex_best3, ex_best_empty] [MatchSeq [ex_match3], MatchSeq [ex_match3]]
           = Inr cm"
      "\<forall>b\<in>set [ex_best3, ex_best_empty].
         cm b = Some (filter (\<lambda>m. best_track m = b) [ex_match3, ex_match3])"
      "mset (flatten_combined cm [ex_best3, ex_best_empty]) = mset [ex_match3, ex_match3]"
    by auto
  from cm(2) b have "cm ex_best3 = Some [ex_match3, ex_match3]" "cm ex_best_empty = Some []"
    by auto
  with cm(1,3) h show ?thesis by blast
qed

section \<open>The parameter search: overlaps and loop invariants\<close>

lemmas search_defs = search_def initial_state_def grid_point_def
  check_smoothed_def check_filtered_def u_cum_dist_def observations_def Let_def
  enumerate_eq_zip

lemmas ex_search_defs = ex_dist_def ex_best6_def ex_vort6_def ex_smoother_def ex_best3_def
  ex_vort3_def ex_found_def ex_gated_def power2_eq_square

lemma cum_dist_loop_overlap:
  "snd (cum_dist_loop distf dict (d, n) obs) =
     n + length (filter (\<lambda>ob. snd (snd ob) \<in> fst ` set dict) obs)"
proof (induction obs arbitrary: d n)
  case Nil
  then show ?case by simp
next
  case (Cons ob obs)
  obtain lon lat date where ob: "ob = (lon, lat, date)" by (cases ob) auto
  show ?case
  proof (cases "map_of dict date")
    case None
    then have "date \<notin> fst ` set dict" by (simp add: map_of_eq_None_iff)
    with None ob Cons.IH[of d n] show ?thesis by simp
  next
    case (Some p)
    then have "date \<in> fst ` set dict" by (auto dest: map_of_SomeD intro: rev_image_eqI)
    with Some ob Cons.IH[of "d + (distf p (lon, lat))\<^sup>2" "n + 1"] show ?thesis by simp
  qed
qed

lemma u_cum_dist_overlap_keys:
  "fst ` set d1 = fst ` set d2 \<Longrightarrow> snd (u_cum_dist distf b d1) = snd (u_cum_dist distf b d2)"
  by (simp add: u_cum_dist_def cum_dist_loop_overlap)

lemma fill_dicts_keys:
  "fill_dicts sp fp (sd, fd) ks = Inr (sd', fd') \<Longrightarrow>
   fst ` set sd' = fst ` set sd \<union> snd ` set ks \<and> fst ` set fd' = fst ` set fd \<union> snd ` set ks"
proof (induction ks arbitrary: sd fd)
  case Nil
  then show ?case by simp
next
  case (Cons k ks)
  obtain i date where k: "k = (i, date)" by (cases k)
  from Cons.prems k have
    "fill_dicts sp fp (AList.update date (sp ! i) sd, AList.update date (fp ! i) fd) ks
       = Inr (sd', fd')"
    by (auto split: if_splits)
  from Cons.IH[OF this] k show ?case by (auto simp: dom_update)
qed

lemma check_dicts [simp]:
  "smoothed_dict (check_smoothed q r ov d st) = smoothed_dict st"
  "filtered_dict (check_smoothed q r ov d st) = filtered_dict st"
  "smoothed_dict (check_filtered q r ov d st) = smoothed_dict st"
  "filtered_dict (check_filtered q r ov d st) = filtered_dict st"
  by (simp_all add: check_smoothed_def check_filtered_def)

lemma grid_point_unfold:
  assumes "grid_point distf pd b v q r st = Inr st'"
  shows "\<exists>sp fp s'. pd (rts_smoother st) (vortmaxes v) q r = Inr (sp, fp, s') \<and>
     fill_dicts sp fp (smoothed_dict st, filtered_dict st)
        (List.enumerate 0 (map fst (vortmax_by_date v)))
       = Inr (smoothed_dict st', filtered_dict st') \<and>
     st' = check_filtered q r (snd (u_cum_dist distf b (filtered_dict st')))
             (fst (u_cum_dist distf b (filtered_dict st')))
             (check_smoothed q r (snd (u_cum_dist distf b (filtered_dict st')))
               (fst (u_cum_dist distf b (smoothed_dict st')))
               (st\<lparr> smoothed_dict := smoothed_dict st', filtered_dict := filtered_dict st',
                    rts_smoother := s' \<rparr>))"
  using assms
  by (auto simp: grid_point_def Let_def split: sum.splits prod.splits)

lemma grid_point_keys:
  assumes "grid_point distf pd b v q r st = Inr st'"
  shows "fst ` set (smoothed_dict st') =
           fst ` set (smoothed_dict st) \<union> fst ` set (vortmax_by_date v) \<and>
         fst ` set (filtered_dict st') =
           fst ` set (filtered_dict st) \<union> fst ` set (vortmax_by_date v)"
proof -
  from grid_point_unfold[OF assms] obtain sp fp where
    "fill_dicts sp fp (smoothed_dict st, filtered_dict st)
        (List.enumerate 0 (map fst (vortmax_by_date v)))
       = Inr (smoothed_dict st', filtered_dict st')" by blast
  note k = fill_dicts_keys[OF this]
  have "snd ` set (List.enumerate 0 (map fst (vortmax_by_date v))) =
      set (map fst (vortmax_by_date v))"
    by (metis map_snd_enumerate set_map)
  also have "\<dots> = fst ` set (vortmax_by_date v)" by simp
  finally show ?thesis using k by simp
qed

lemma r_loop_inv:
  assumes "\<And>r st st'. P st \<Longrightarrow> grid_point distf pd b v q r st = Inr st' \<Longrightarrow> P st'"
    and "P st" and "r_loop distf pd b v q st rs = Inr st'"
  shows "P st'"
  using assms(2,3)
proof (induction rs arbitrary: st)
  case Nil
  then show ?case by simp
next
  case (Cons r rs)
  from Cons.prems(2) obtain st1 where
    1: "grid_point distf pd b v q r st = Inr st1" and 2: "r_loop distf pd b v q st1 rs = Inr st'"
    by (auto split: sum.splits)
  from Cons.IH[OF assms(1)[OF Cons.prems(1) 1] 2] show ?case .
qed

lemma q_loop_inv:
  assumes "\<And>q r st st'. P st \<Longrightarrow> grid_point distf pd b v q r st = Inr st' \<Longrightarrow> P st'"
    and "P st" and "q_loop distf pd b v rs st qs = Inr st'"
  shows "P st'"
  using assms(2,3)
proof (induction qs arbitrary: st)
  case Nil
  then show ?case by simp
next
  case (Cons q qs)
  from Cons.prems(2) obtain st1 where
    1: "r_loop distf pd b v q st rs = Inr st1" and 2: "q_loop distf pd b v rs st1 qs = Inr st'"
    by (auto split: sum.splits)
  have "P st1" by (rule r_loop_inv[where P = P, OF assms(1) Cons.prems(1) 1])
  from Cons.IH[OF this 2] show ?case .
qed

lemma search_inv:
  assumes "\<And>q r st st'. P st \<Longrightarrow> grid_point distf pd b v q r st = Inr st' \<Longrightarrow> P st'"
    and "P (initial_state distf s0 b v)" and "search distf pd s0 qs rs b v = Inr st"
  shows "P st"
proof -
  from assms(3) have "q_loop distf pd b v rs (initial_state distf s0 b v) qs = Inr st"
    by (auto simp: search_def split: if_splits)
  from q_loop_inv[where P = P, OF assms(1) assms(2) this] show ?thesis .
qed

lemma grid_point_checks:
  assumes "grid_point distf pd b v q r st = Inr st'"
  shows "\<exists>st1 ov s f. min_d st1 = min_d st \<and> optimum_param st1 = optimum_param st \<and>
     printed st1 = printed st \<and>
     ov = new_overlap distf b st' \<and> s = smoothed_new_d distf b st' \<and>
     f = filtered_new_d distf b st' \<and>
     st' = check_filtered q r ov f (check_smoothed q r ov s st1)"
proof -
  from grid_point_unfold[OF assms] obtain s' where
    "st' = check_filtered q r (new_overlap distf b st') (filtered_new_d distf b st')
             (check_smoothed q r (new_overlap distf b st') (smoothed_new_d distf b st')
               (st\<lparr> smoothed_dict := smoothed_dict st', filtered_dict := filtered_dict st',
                    rts_smoother := s' \<rparr>))"
    unfolding new_overlap_def filtered_new_d_def smoothed_new_d_def by blast
  then show ?thesis
    by (intro exI[of _ "st\<lparr> smoothed_dict := smoothed_dict st',
          filtered_dict := filtered_dict st', rts_smoother := s' \<rparr>"]
        exI[of _ "new_overlap distf b st'"] exI[of _ "smoothed_new_d distf b st'"]
        exI[of _ "filtered_new_d distf b st'"]) simp
qed

lemma checks_min_d:
  "min_d (check_filtered q r ov f (check_smoothed q r ov s st1)) =
     (if 6 \<le> ov then min (min_d st1) (min s f) else min_d st1)"
  by (auto simp: check_filtered_def check_smoothed_def)

lemma checks_optimum_param:
  "optimum_param (check_filtered q r ov f (check_smoothed q r ov s st1)) =
     (if 6 \<le> ov \<and> f < min (min_d st1) s then Some (q, r, Filtered)
      else if 6 \<le> ov \<and> s < min_d st1 then Some (q, r, Smoothed)
      else optimum_param st1)"
  by (auto simp: check_filtered_def check_smoothed_def)

lemma checks_gate:
  "ov < 6 \<Longrightarrow> check_filtered q r ov f (check_smoothed q r ov s st1) = st1"
  by (simp add: check_filtered_def check_smoothed_def)

lemma grid_point_gate:
  assumes "grid_point distf pd b v q r st = Inr st'" and "new_overlap distf b st' < 6"
  shows "optimum_param st' = optimum_param st \<and> min_d st' = min_d st \<and> printed st' = printed st"
proof -
  from grid_point_checks[OF assms(1)] obtain st1 ov s f where
    1: "min_d st1 = min_d st" "optimum_param st1 = optimum_param st" "printed st1 = printed st" and
    v: "ov = new_overlap distf b st'" and
    2: "st' = check_filtered q r ov f (check_smoothed q r ov s st1)"
    by blast
  from assms(2) v have "ov < 6" by simp
  from checks_gate[OF this] 2 have "st' = st1" by simp
  with 1 show ?thesis by simp
qed

lemma grid_point_overlap_baseline:
  assumes "grid_point distf pd b v q r st = Inr st'"
    and "fst ` set (filtered_dict st) \<subseteq> fst ` set (vortmax_by_date v)"
  shows "new_overlap distf b st' = snd (u_cum_dist distf b (vortmax_by_date v))"
proof -
  from grid_point_keys[OF assms(1)] assms(2) have
    "fst ` set (filtered_dict st') = fst ` set (vortmax_by_date v)" by auto
  then show ?thesis unfolding new_overlap_def by (rule u_cum_dist_overlap_keys)
qed

lemma search_gate:
  assumes "search distf pd s0 qs rs b v = Inr st"
    and "snd (u_cum_dist distf b (vortmax_by_date v)) < 6"
  shows "optimum_param st = None \<and> min_d st = fst (u_cum_dist distf b (vortmax_by_date v)) \<and>
     printed st = [PrintBaseline (fst (u_cum_dist distf b (vortmax_by_date v)))]"
proof -
  let ?P = "\<lambda>st. fst ` set (filtered_dict st) \<subseteq> fst ` set (vortmax_by_date v) \<and>
     optimum_param st = None \<and> min_d st = fst (u_cum_dist distf b (vortmax_by_date v)) \<and>
     printed st = [PrintBaseline (fst (u_cum_dist distf b (vortmax_by_date v)))]"
  have step: "\<And>q r st st'. ?P st \<Longrightarrow> grid_point distf pd b v q r st = Inr st' \<Longrightarrow> ?P st'"
  proof -
    fix q r st st'
    assume P: "?P st" and g: "grid_point distf pd b v q r st = Inr st'"
    from P have sub: "fst ` set (filtered_dict st) \<subseteq> fst ` set (vortmax_by_date v)" by simp
    from grid_point_overlap_baseline[OF g sub] assms(2) have "new_overlap distf b st' < 6"
      by simp
    note gate = grid_point_gate[OF g this]
    from grid_point_keys[OF g] sub have
      "fst ` set (filtered_dict st') \<subseteq> fst ` set (vortmax_by_date v)" by blast
    with gate P show "?P st'" by simp
  qed
  have init: "?P (initial_state distf s0 b v)" by (simp add: initial_state_def)
  from search_inv[where P = ?P, OF step init assms(1)] show ?thesis by simp
qed

lemma ex_first_point:
  "grid_point ex_dist ex_smoother ex_best6 ex_vort6 q r
     (initial_state ex_dist () ex_best6 ex_vort6) = Inr (ex_found q r)"
  by (simp add: search_defs ex_search_defs)

lemma ex_later_point:
  "grid_point ex_dist ex_smoother ex_best6 ex_vort6 q' r' (ex_found q r) = Inr (ex_found q r)"
  by (simp add: search_defs ex_search_defs)

lemma ex_gated_point:
  "grid_point ex_dist ex_smoother ex_best3 ex_vort3 q r
     (initial_state ex_dist () ex_best3 ex_vort3) = Inr ex_gated"
  by (simp add: search_defs ex_search_defs)

lemma ex_r_loop_found:
  "r_loop ex_dist ex_smoother ex_best6 ex_vort6 q' (ex_found q r) rs = Inr (ex_found q r)"
  by (induction rs) (simp_all add: ex_later_point)

lemma ex_q_loop_found:
  "q_loop ex_dist ex_smoother ex_best6 ex_vort6 rs (ex_found q r) qs = Inr (ex_found q r)"
  by (induction qs) (simp_all add: ex_r_loop_found)

lemma ex_search_found:
  "search ex_dist ex_smoother () (q # qs) (r # rs) ex_best6 ex_vort6 = Inr (ex_found q r)"
proof -
  have "vortmaxes ex_vort6 \<noteq> []" by (simp add: ex_vort6_def)
  then show ?thesis
    by (simp add: search_def ex_first_point ex_r_loop_found ex_q_loop_found)
qed

lemma ex_search_gated:
  "search ex_dist ex_smoother () [1 / 10 ^ 4] [1 / 10 ^ 2] ex_best3 ex_vort3 = Inr ex_gated"
proof -
  have "vortmaxes ex_vort3 \<noteq> []" by (simp add: ex_vort3_def)
  then show ?thesis by (simp add: search_def ex_gated_point)
qed

lemma ex_baseline6: "u_cum_dist ex_dist ex_best6 (vortmax_by_date ex_vort6) = (24, 6)"
  by (simp add: u_cum_dist_def observations_def ex_search_defs)

lemma ex_baseline3: "u_cum_dist ex_dist ex_best3 (vortmax_by_date ex_vort3) = (1 / 4, 3)"
  by (simp add: u_cum_dist_def observations_def ex_search_defs)

lemma arange_q: "arange (1 / 10 ^ 4) (1 / 10 ^ 2) (5 / 10 ^ 4) =
    (1 / 10 ^ 4) # map (\<lambda>k. 1 / 10 ^ 4 + real k * (5 / 10 ^ 4)) [1..<20]"
  by (simp add: arange_def upt_conv_Cons)

lemma arange_r: "arange (1 / 10 ^ 2) 1 (5 / 10 ^ 2) =
    (1 / 10 ^ 2) # map (\<lambda>k. 1 / 10 ^ 2 + real k * (5 / 10 ^ 2)) [1..<20]"
  by (simp add: arange_def upt_conv_Cons)

lemma run_points_append:
  "run_points distf pd b v st (xs @ ys) =
     (case run_points distf pd b v st xs of
        Inl e \<Rightarrow> Inl e
      | Inr st' \<Rightarrow> run_points distf pd b v st' ys)"
  by (induction xs arbitrary: st) (auto split: sum.splits)

lemma r_loop_points:
  "r_loop distf pd b v q st rs = run_points distf pd b v st (map (Pair q) rs)"
  by (induction rs arbitrary: st) (auto split: sum.splits)

lemma q_loop_points:
  "q_loop distf pd b v rs st qs = run_points distf pd b v st (List.product qs rs)"
  by (induction qs arbitrary: st) (auto simp: run_points_append r_loop_points split: sum.splits)

lemma records_append:
  "records m (xs @ ys) =
     records m xs @
     records (if records m xs = [] then m else snd (last (records m xs))) ys"
  by (induction xs arbitrary: m) auto

lemma records_empty_iff: "records m cs = [] \<longleftrightarrow> (\<forall>c\<in>set cs. \<not> snd c < m)"
proof (induction cs arbitrary: m)
  case Nil
  then show ?case by simp
next
  case (Cons c cs)
  obtain p d where c: "c = (p, d)" by (cases c)
  from Cons.IH[of m] c show ?case by auto
qed

lemma records_final_le:
  "(if records m cs = [] then m else snd (last (records m cs))) \<le> m \<and>
   (\<forall>c\<in>set cs. (if records m cs = [] then m else snd (last (records m cs))) \<le> snd c)"
proof (induction cs arbitrary: m)
  case Nil
  then show ?case by simp
next
  case (Cons c cs)
  obtain p d where c: "c = (p, d)" by (cases c)
  show ?case
  proof (cases "d < m")
    case True
    with Cons.IH[of d] c show ?thesis by (auto split: if_splits)
  next
    case False
    with Cons.IH[of m] c show ?thesis by (auto split: if_splits)
  qed
qed

lemma checks_records:
  "printed (check_filtered q r ov f (check_smoothed q r ov s st0)) =
       printed st0 @
       concat (map log_of (records (min_d st0) (point_candidates (q, r, s, f, ov)))) \<and>
     min_d (check_filtered q r ov f (check_smoothed q r ov s st0)) =
       (if records (min_d st0) (point_candidates (q, r, s, f, ov)) = [] then min_d st0
        else snd (last (records (min_d st0) (point_candidates (q, r, s, f, ov))))) \<and>
     optimum_param (check_filtered q r ov f (check_smoothed q r ov s st0)) =
       (if records (min_d st0) (point_candidates (q, r, s, f, ov)) = []
        then optimum_param st0
        else Some (fst (last (records (min_d st0) (point_candidates (q, r, s, f, ov))))))"
  by (auto simp: check_filtered_def check_smoothed_def point_candidates_def log_of_def)

lemma grid_point_smoother:
  assumes "grid_point distf pd b v q r st = Inr st'"
  shows "\<exists>sp fp. pd (rts_smoother st) (vortmaxes v) q r = Inr (sp, fp, rts_smoother st') \<and>
     fill_dicts sp fp (smoothed_dict st, filtered_dict st)
        (List.enumerate 0 (map fst (vortmax_by_date v)))
       = Inr (smoothed_dict st', filtered_dict st')"
  using assms
  by (auto simp: grid_point_def Let_def check_filtered_def check_smoothed_def
           split: sum.splits prod.splits)

lemma run_points_records:
  "run_points distf pd b v st g = Inr st' \<Longrightarrow>
   \<exists>vals. grid_values distf pd b v (rts_smoother st, smoothed_dict st, filtered_dict st) g
            = Inr vals \<and>
     printed st' = printed st @ concat (map log_of (records (min_d st) (candidates vals))) \<and>
     min_d st' =
       (if records (min_d st) (candidates vals) = [] then min_d st
        else snd (last (records (min_d st) (candidates vals)))) \<and>
     optimum_param st' =
       (if records (min_d st) (candidates vals) = [] then optimum_param st
        else Some (fst (last (records (min_d st) (candidates vals)))))"
proof (induction g arbitrary: st)
  case Nil
  then show ?case by (simp add: candidates_def)
next
  case (Cons pt g)
  obtain q r where pt: "pt = (q, r)" by (cases pt)
  from Cons.prems pt obtain st1 where
    step: "grid_point distf pd b v q r st = Inr st1" and
    rest: "run_points distf pd b v st1 g = Inr st'"
    by (auto split: sum.splits)
  from Cons.IH[OF rest] obtain vals where
    gv1: "grid_values distf pd b v (rts_smoother st1, smoothed_dict st1, filtered_dict st1) g
            = Inr vals" and
    p2: "printed st' = printed st1 @ concat (map log_of (records (min_d st1) (candidates vals)))"
    and
    m2: "min_d st' =
       (if records (min_d st1) (candidates vals) = [] then min_d st1
        else snd (last (records (min_d st1) (candidates vals))))" and
    o2: "optimum_param st' =
       (if records (min_d st1) (candidates vals) = [] then optimum_param st1
        else Some (fst (last (records (min_d st1) (candidates vals)))))"
    by blast
  from grid_point_checks[OF step] obtain st0 ov s f where
    0: "min_d st0 = min_d st" "optimum_param st0 = optimum_param st" "printed st0 = printed st"
    and
    v: "ov = new_overlap distf b st1" "s = smoothed_new_d distf b st1"
       "f = filtered_new_d distf b st1" and
    1: "st1 = check_filtered q r ov f (check_smoothed q r ov s st0)"
    by blast
  define R1 where "R1 = records (min_d st) (point_candidates (q, r, s, f, ov))"
  define R2 where "R2 = records (min_d st1) (candidates vals)"
  from checks_records[of q r ov f s st0] have
    p1: "printed st1 = printed st @ concat (map log_of R1)" and
    m1: "min_d st1 = (if R1 = [] then min_d st else snd (last R1))" and
    o1: "optimum_param st1 = (if R1 = [] then optimum_param st else Some (fst (last R1)))"
    unfolding 1[symmetric] 0 R1_def[symmetric] by simp_all
  from grid_point_smoother[OF step] obtain sp fp where
    pd: "pd (rts_smoother st) (vortmaxes v) q r = Inr (sp, fp, rts_smoother st1)" and
    fill: "fill_dicts sp fp (smoothed_dict st, filtered_dict st)
        (List.enumerate 0 (map fst (vortmax_by_date v)))
       = Inr (smoothed_dict st1, filtered_dict st1)"
    by blast
  have gv: "grid_values distf pd b v (rts_smoother st, smoothed_dict st, filtered_dict st)
      (pt # g) = Inr ((q, r, s, f, ov) # vals)"
    unfolding pt v new_overlap_def smoothed_new_d_def filtered_new_d_def
    by (simp add: pd fill gv1)
  have "candidates ((q, r, s, f, ov) # vals) =
      point_candidates (q, r, s, f, ov) @ candidates vals"
    by (simp add: candidates_def)
  then have "records (min_d st) (candidates ((q, r, s, f, ov) # vals)) =
      R1 @ records (if R1 = [] then min_d st else snd (last R1)) (candidates vals)"
    by (simp add: records_append R1_def)
  with m1 have rec: "records (min_d st) (candidates ((q, r, s, f, ov) # vals)) = R1 @ R2"
    by (simp add: R2_def)
  have p: "printed st' = printed st @ concat (map log_of (R1 @ R2))"
    using p1 p2 by (simp add: R2_def)
  have m: "min_d st' = (if R1 @ R2 = [] then min_d st else snd (last (R1 @ R2)))"
    using m1 m2 by (simp add: R2_def)
  have o: "optimum_param st' =
      (if R1 @ R2 = [] then optimum_param st else Some (fst (last (R1 @ R2))))"
    using o1 o2 by (simp add: R2_def)
  from gv p m o show ?case unfolding rec[symmetric] by blast
qed

lemma search_records:
  assumes "search distf pd s0 qs rs b v = Inr st"
  shows "\<exists>vals. grid_values distf pd b v (s0, [], []) (List.product qs rs) = Inr vals \<and>
     printed st = PrintBaseline (fst (u_cum_dist distf b (vortmax_by_date v))) #
       concat (map log_of
         (records (fst (u_cum_dist distf b (vortmax_by_date v))) (candidates vals))) \<and>
     min_d st =
       (if records (fst (u_cum_dist distf b (vortmax_by_date v))) (candidates vals) = []
        then fst (u_cum_dist distf b (vortmax_by_date v))
        else snd (last
          (records (fst (u_cum_dist distf b (vortmax_by_date v))) (candidates vals)))) \<and>
     optimum_param st =
       (if records (fst (u_cum_dist distf b (vortmax_by_date v))) (candidates vals) = []
        then None
        else Some (fst (last
          (records (fst (u_cum_dist distf b (vortmax_by_date v))) (candidates vals)))))"
proof -
  from assms have "run_points distf pd b v (initial_state distf s0 b v) (List.product qs rs)
      = Inr st"
    by (auto simp: search_def q_loop_points split: if_splits)
  from run_points_records[OF this] obtain vals where
    "grid_values distf pd b v (rts_smoother (initial_state distf s0 b v),
        smoothed_dict (initial_state distf s0 b v), filtered_dict (initial_state distf s0 b v))
        (List.product qs rs) = Inr vals"
    "printed st = printed (initial_state distf s0 b v) @
        concat (map log_of (records (min_d (initial_state distf s0 b v)) (candidates vals)))"
    "min_d st =
       (if records (min_d (initial_state distf s0 b v)) (candidates vals) = []
        then min_d (initial_state distf s0 b v)
        else snd (last (records (min_d (initial_state distf s0 b v)) (candidates vals))))"
    "optimum_param st =
       (if records (min_d (initial_state distf s0 b v)) (candidates vals) = []
        then optimum_param (initial_state distf s0 b v)
        else Some (fst (last (records (min_d (initial_state distf s0 b v))
          (candidates vals)))))"
    by blast
  then show ?thesis
    by (intro exI[of _ vals]) (simp add: initial_state_def)
qed

lemma ex_grid_values:
  "grid_values ex_dist ex_smoother ex_best6 ex_vort6 ((), [], []) (List.product [q] [r])
     = Inr [(q, r, 6, 27 / 2, 6)]"
  by (simp add: u_cum_dist_def observations_def enumerate_eq_zip ex_search_defs)

lemma ex_records:
  "records 24 (candidates [(q, r, 6, 27 / 2, 6)]) = [((q, r, Smoothed), 6)]"
  by (simp add: candidates_def point_candidates_def)

text \<open>
  A pair whose positions coincide on its one common date has the baseline 0
  with overlap 1: with Python floats the final division raises, with numpy
  scalars the function prints \<^verbatim>\<open>nan\<close> and ends normally.
\<close>

lemma ex_zero_baseline_python:
  "optimize_grid False ex_dist ex_smoother () [1 / 10 ^ 4] [1 / 10 ^ 2] ex_best1 ex_vort_same
     = Inl ZeroDivisionError"
  by (simp add: optimize_grid_def divide_values_def search_defs ex_search_defs ex_best1_def
      ex_vort_same_def)

lemma ex_zero_baseline_numpy:
  "optimize_grid True ex_dist ex_smoother () [1 / 10 ^ 4] [1 / 10 ^ 2] ex_best1 ex_vort_same
     = Inr (None, [PrintBaseline 0, PrintRatio NaN])"
  by (simp add: optimize_grid_def divide_values_def search_defs ex_search_defs ex_best1_def
      ex_vort_same_def)

section \<open>Claims about the parameter search\<close>

text \<open>
  C6, as stated, fails: the function has no \<^verbatim>\<open>return\<close> statement.  On the
  six-date example the first grid point of the source's grids improves on the
  baseline 24 with the smoothed distance 6, yet the value returned is
  \<^verbatim>\<open>None\<close>; the optimum and the ratio 1/4 only appear on the printed log.
\<close>

theorem optimize_returns_none:
  "u_optimize False ex_dist ex_smoother () ex_best6 ex_vort6 =
     Inr (None, [PrintBaseline 24, PrintNewOptimum (1 / 10 ^ 4, 1 / 10 ^ 2, Smoothed),
                 PrintMinDist 6, PrintRatio (Ratio (1 / 4))])"
  unfolding u_optimize_def optimize_grid_def arange_q arange_r ex_search_found
  by (simp add: ex_baseline6 ex_found_def divide_values_def)

text \<open>
  C6, amended.  Whenever the function completes over given grids, its value
  is \<^verbatim>\<open>None\<close>.  The optimum is kept in a local variable: it is the last of
  the candidates that were strictly below the minimum reached before them,
  the baseline included, and it is none exactly when no candidate of any grid
  point is strictly below the baseline; the running minimum ends at that
  candidate's distance, or at the baseline.  What is reported is printed: the
  baseline, then every adopted optimum in the order of adoption (with its
  distance when it is a smoothed one), then the quotient of the final minimum
  by the baseline, which is their ratio whenever the baseline is not zero.
\<close>

theorem optimize_reports_by_printing:
  assumes "optimize_grid numpy_dist distf pd s0 qs rs b v = Inr (ret, out)"
  shows "ret = None \<and>
     (\<exists>vals recs st ratio.
        grid_values distf pd b v (s0, [], []) (List.product qs rs) = Inr vals \<and>
        recs = records (fst (u_cum_dist distf b (vortmax_by_date v))) (candidates vals) \<and>
        search distf pd s0 qs rs b v = Inr st \<and>
        optimum_param st = (if recs = [] then None else Some (fst (last recs))) \<and>
        min_d st =
          (if recs = [] then fst (u_cum_dist distf b (vortmax_by_date v))
           else snd (last recs)) \<and>
        (optimum_param st = None \<longleftrightarrow>
           (\<forall>c\<in>set (candidates vals).
              \<not> snd c < fst (u_cum_dist distf b (vortmax_by_date v)))) \<and>
        divide_values numpy_dist (snd (u_cum_dist distf b (vortmax_by_date v)))
          (min_d st) (fst (u_cum_dist distf b (vortmax_by_date v))) = Inr ratio \<and>
        (fst (u_cum_dist distf b (vortmax_by_date v)) \<noteq> 0 \<longrightarrow>
           ratio = Ratio (min_d st / fst (u_cum_dist distf b (vortmax_by_date v)))) \<and>
        out = PrintBaseline (fst (u_cum_dist distf b (vortmax_by_date v))) #
                concat (map log_of recs) @ [PrintRatio ratio])"
proof -
  let ?base = "fst (u_cum_dist distf b (vortmax_by_date v))"
  let ?ov = "snd (u_cum_dist distf b (vortmax_by_date v))"
  from assms obtain st ratio where
    s: "search distf pd s0 qs rs b v = Inr st" and
    d: "divide_values numpy_dist ?ov (min_d st) ?base = Inr ratio" and
    r: "ret = None" and
    o: "out = printed st @ [PrintRatio ratio]"
    by (auto simp: optimize_grid_def Let_def split: sum.splits prod.splits)
  from search_records[OF s] obtain vals where
    gv: "grid_values distf pd b v (s0, [], []) (List.product qs rs) = Inr vals" and
    p: "printed st = PrintBaseline ?base #
          concat (map log_of (records ?base (candidates vals)))" and
    m: "min_d st = (if records ?base (candidates vals) = [] then ?base
          else snd (last (records ?base (candidates vals))))" and
    op: "optimum_param st = (if records ?base (candidates vals) = [] then None
          else Some (fst (last (records ?base (candidates vals)))))"
    by blast
  from op have n: "optimum_param st = None \<longleftrightarrow>
      (\<forall>c\<in>set (candidates vals). \<not> snd c < ?base)"
    by (simp add: records_empty_iff)
  from d have q: "?base \<noteq> 0 \<longrightarrow> ratio = Ratio (min_d st / ?base)"
    by (auto simp: divide_values_def split: if_splits)
  from o p have o': "out = PrintBaseline ?base #
      concat (map log_of (records ?base (candidates vals))) @ [PrintRatio ratio]"
    by simp
  from gv s op m n d q o' have
    "\<exists>vals recs st ratio.
        grid_values distf pd b v (s0, [], []) (List.product qs rs) = Inr vals \<and>
        recs = records ?base (candidates vals) \<and>
        search distf pd s0 qs rs b v = Inr st \<and>
        optimum_param st = (if recs = [] then None else Some (fst (last recs))) \<and>
        min_d st = (if recs = [] then ?base else snd (last recs)) \<and>
        (optimum_param st = None \<longleftrightarrow> (\<forall>c\<in>set (candidates vals). \<not> snd c < ?base)) \<and>
        divide_values numpy_dist ?ov (min_d st) ?base = Inr ratio \<and>
        (?base \<noteq> 0 \<longrightarrow> ratio = Ratio (min_d st / ?base)) \<and>
        out = PrintBaseline ?base # concat (map log_of recs) @ [PrintRatio ratio]"
    by (intro exI[of _ vals] exI[of _ "records ?base (candidates vals)"] exI[of _ st]
        exI[of _ ratio]) blast
  with r show ?thesis by blast
qed

theorem optimize_reports_by_printing_witness:
  "optimize_grid False ex_dist ex_smoother () [1 / 10 ^ 4] [1 / 10 ^ 2] ex_best6 ex_vort6 =
     Inr (None, [PrintBaseline 24, PrintNewOptimum (1 / 10 ^ 4, 1 / 10 ^ 2, Smoothed),
                 PrintMinDist 6, PrintRatio (Ratio (1 / 4))]) \<and>
   grid_values ex_dist ex_smoother ex_best6 ex_vort6 ((), [], [])
     (List.product [1 / 10 ^ 4] [1 / 10 ^ 2]) = Inr [(1 / 10 ^ 4, 1 / 10 ^ 2, 6, 27 / 2, 6)] \<and>
   records 24 (candidates [(1 / 10 ^ 4, 1 / 10 ^ 2, 6, 27 / 2, 6)]) =
     [((1 / 10 ^ 4, 1 / 10 ^ 2, Smoothed), 6)] \<and>
   (\<exists>st. search ex_dist ex_smoother () [1 / 10 ^ 4] [1 / 10 ^ 2] ex_best6 ex_vort6 = Inr st \<and>
      optimum_param st = Some (1 / 10 ^ 4, 1 / 10 ^ 2, Smoothed) \<and> min_d st = 6)"
proof -
  have h: "optimize_grid False ex_dist ex_smoother () [1 / 10 ^ 4] [1 / 10 ^ 2] ex_best6
      ex_vort6 =
     Inr (None, [PrintBaseline 24, PrintNewOptimum (1 / 10 ^ 4, 1 / 10 ^ 2, Smoothed),
                 PrintMinDist 6, PrintRatio (Ratio (1 / 4))])"
    unfolding optimize_grid_def ex_search_found
    by (simp add: ex_baseline6 ex_found_def divide_values_def)
  from optimize_reports_by_printing[OF h] obtain vals recs st where
    gv: "grid_values ex_dist ex_smoother ex_best6 ex_vort6 ((), [], [])
      (List.product [1 / 10 ^ 4] [1 / 10 ^ 2]) = Inr vals" and
    rc: "recs = records (fst (u_cum_dist ex_dist ex_best6 (vortmax_by_date ex_vort6)))
      (candidates vals)" and
    st: "search ex_dist ex_smoother () [1 / 10 ^ 4] [1 / 10 ^ 2] ex_best6 ex_vort6 = Inr st"
      "optimum_param st = (if recs = [] then None else Some (fst (last recs)))"
      "min_d st = (if recs = [] then fst (u_cum_dist ex_dist ex_best6 (vortmax_by_date ex_vort6))
           else snd (last recs))"
    by blast
  from gv have vals: "vals = [(1 / 10 ^ 4, 1 / 10 ^ 2, 6, 27 / 2, 6)]"
    unfolding ex_grid_values by simp
  from rc have recs: "recs = [((1 / 10 ^ 4, 1 / 10 ^ 2, Smoothed), 6)]"
    unfolding vals ex_baseline6 by (simp add: ex_records)
  from st have "optimum_param st = Some (1 / 10 ^ 4, 1 / 10 ^ 2, Smoothed)" "min_d st = 6"
    unfolding recs by simp_all
  with st(1) h ex_grid_values[of "1 / 10 ^ 4" "1 / 10 ^ 2"] ex_records[of "1 / 10 ^ 4" "1 / 10 ^ 2"]
  show ?thesis by blast
qed

text \<open>
  C7.  A grid point whose recomputed overlap is below 6 changes neither the
  recorded optimum nor the running minimum and prints nothing.  The
  recomputed overlap is the same at every grid point of a search and equals
  the baseline overlap (\<open>grid_point_overlap_baseline\<close>); when it is below 6 the
  search ends with no optimum and the minimum at the baseline, and a search
  that ends with an optimum had overlap at least 6.
\<close>

theorem search_overlap_gate:
  "(grid_point distf pd b v q r st = Inr st' \<and> new_overlap distf b st' < 6 \<longrightarrow>
      optimum_param st' = optimum_param st \<and> min_d st' = min_d st \<and>
      printed st' = printed st) \<and>
   (search distf pd s0 qs rs b v = Inr st1 \<and>
    snd (u_cum_dist distf b (vortmax_by_date v)) < 6 \<longrightarrow>
      optimum_param st1 = None \<and>
      min_d st1 = fst (u_cum_dist distf b (vortmax_by_date v))) \<and>
   (search distf pd s0 qs rs b v = Inr st1 \<and> optimum_param st1 \<noteq> None \<longrightarrow>
      6 \<le> snd (u_cum_dist distf b (vortmax_by_date v)))"
proof (intro conjI impI)
  assume a: "grid_point distf pd b v q r st = Inr st' \<and> new_overlap distf b st' < 6"
  then have "grid_point distf pd b v q r st = Inr st'" "new_overlap distf b st' < 6" by auto
  from grid_point_gate[OF this] show "optimum_param st' = optimum_param st"
    "min_d st' = min_d st" "printed st' = printed st" by auto
next
  assume a: "search distf pd s0 qs rs b v = Inr st1 \<and>
    snd (u_cum_dist distf b (vortmax_by_date v)) < 6"
  then have "search distf pd s0 qs rs b v = Inr st1"
    "snd (u_cum_dist distf b (vortmax_by_date v)) < 6" by auto
  from search_gate[OF this] show "optimum_param st1 = None"
    "min_d st1 = fst (u_cum_dist distf b (vortmax_by_date v))" by auto
next
  assume a: "search distf pd s0 qs rs b v = Inr st1 \<and> optimum_param st1 \<noteq> None"
  show "6 \<le> snd (u_cum_dist distf b (vortmax_by_date v))"
  proof (rule ccontr)
    assume "\<not> 6 \<le> snd (u_cum_dist distf b (vortmax_by_date v))"
    then have lt: "snd (u_cum_dist distf b (vortmax_by_date v)) < 6" by simp
    from a have s: "search distf pd s0 qs rs b v = Inr st1" by simp
    from search_gate[OF s lt] a show False by simp
  qed
qed

theorem search_overlap_gate_witness:
  "grid_point ex_dist ex_smoother ex_best3 ex_vort3 (1 / 10 ^ 4) (1 / 10 ^ 2)
     (initial_state ex_dist () ex_best3 ex_vort3) = Inr ex_gated \<and>
   new_overlap ex_dist ex_best3 ex_gated < 6 \<and>
   optimum_param ex_gated = optimum_param (initial_state ex_dist () ex_best3 ex_vort3) \<and>
   min_d ex_gated = min_d (initial_state ex_dist () ex_best3 ex_vort3) \<and>
   search ex_dist ex_smoother () [1 / 10 ^ 4] [1 / 10 ^ 2] ex_best3 ex_vort3 = Inr ex_gated \<and>
   snd (u_cum_dist ex_dist ex_best3 (vortmax_by_date ex_vort3)) < 6 \<and>
   optimum_param ex_gated = None \<and>
   search ex_dist ex_smoother () [1 / 10 ^ 4] [1 / 10 ^ 2] ex_best6 ex_vort6
     = Inr (ex_found (1 / 10 ^ 4) (1 / 10 ^ 2)) \<and>
   optimum_param (ex_found (1 / 10 ^ 4) (1 / 10 ^ 2)) \<noteq> None \<and>
   6 \<le> snd (u_cum_dist ex_dist ex_best6 (vortmax_by_date ex_vort6))"
proof -
  have ov: "new_overlap ex_dist ex_best3 ex_gated < 6"
    by (simp add: new_overlap_def u_cum_dist_def observations_def ex_search_defs)
  have b3: "snd (u_cum_dist ex_dist ex_best3 (vortmax_by_date ex_vort3)) < 6"
    by (simp add: ex_baseline3)
  have f: "optimum_param (ex_found (1 / 10 ^ 4) (1 / 10 ^ 2)) \<noteq> None"
    by (simp add: ex_found_def)
  note t1 = search_overlap_gate[where distf = ex_dist and pd = ex_smoother and b = ex_best3
      and v = ex_vort3 and q = "1 / 10 ^ 4" and r = "1 / 10 ^ 2"
      and st = "initial_state ex_dist () ex_best3 ex_vort3" and st' = ex_gated
      and ?s0.0 = "()" and qs = "[1 / 10 ^ 4]" and rs = "[1 / 10 ^ 2]" and ?st1.0 = ex_gated]
  note t2 = search_overlap_gate[where distf = ex_dist and pd = ex_smoother and b = ex_best6
      and v = ex_vort6 and ?s0.0 = "()" and qs = "[1 / 10 ^ 4]" and rs = "[1 / 10 ^ 2]"
      and ?st1.0 = "ex_found (1 / 10 ^ 4) (1 / 10 ^ 2)"]
  from t1 ex_gated_point ov have
    a: "optimum_param ex_gated = optimum_param (initial_state ex_dist () ex_best3 ex_vort3)"
       "min_d ex_gated = min_d (initial_state ex_dist () ex_best3 ex_vort3)"
    by blast+
  from t1 ex_search_gated b3 have b: "optimum_param ex_gated = None" by blast
  from t2 ex_search_found f have
    c: "6 \<le> snd (u_cum_dist ex_dist ex_best6 (vortmax_by_date ex_vort6))" by blast
  from a b c ov b3 f ex_gated_point ex_search_gated ex_search_found show ?thesis by blast
qed

text \<open>
  C8.  After a grid point the running minimum is the least of the old
  minimum and, when the overlap is at least 6, the smoothed and the filtered
  distances; the recorded optimum is the filtered triple when the filtered
  distance is strictly below both the old minimum and the smoothed distance,
  else the smoothed triple when the smoothed distance is strictly below the
  old minimum, else unchanged.  So the filtered check compares with the
  minimum the smoothed check may just have lowered: a filtered distance that
  beats the old minimum but not the smoothed distance is not recorded.
\<close>

theorem grid_point_checks_in_order:
  assumes "grid_point distf pd b v q r st = Inr st'"
  shows "min_d st' =
       (if 6 \<le> new_overlap distf b st'
        then min (min_d st) (min (smoothed_new_d distf b st') (filtered_new_d distf b st'))
        else min_d st) \<and>
     optimum_param st' =
       (if 6 \<le> new_overlap distf b st' \<and>
           filtered_new_d distf b st' < min (min_d st) (smoothed_new_d distf b st')
        then Some (q, r, Filtered)
        else if 6 \<le> new_overlap distf b st' \<and> smoothed_new_d distf b st' < min_d st
        then Some (q, r, Smoothed)
        else optimum_param st) \<and>
     (6 \<le> new_overlap distf b st' \<and> smoothed_new_d distf b st' < min_d st \<and>
      smoothed_new_d distf b st' \<le> filtered_new_d distf b st' \<longrightarrow>
        optimum_param st' = Some (q, r, Smoothed) \<and> min_d st' = smoothed_new_d distf b st')"
proof -
  from grid_point_checks[OF assms] obtain st1 ov s f where
    1: "min_d st1 = min_d st" "optimum_param st1 = optimum_param st" and
    v: "ov = new_overlap distf b st'" "s = smoothed_new_d distf b st'"
       "f = filtered_new_d distf b st'" and
    2: "st' = check_filtered q r ov f (check_smoothed q r ov s st1)"
    by blast
  have m: "min_d st' = (if 6 \<le> ov then min (min_d st) (min s f) else min_d st)"
    unfolding 2 checks_min_d 1 ..
  have p: "optimum_param st' =
       (if 6 \<le> ov \<and> f < min (min_d st) s then Some (q, r, Filtered)
        else if 6 \<le> ov \<and> s < min_d st then Some (q, r, Smoothed)
        else optimum_param st)"
    unfolding 2 checks_optimum_param 1 ..
  have c: "6 \<le> ov \<and> s < min_d st \<and> s \<le> f \<longrightarrow>
      optimum_param st' = Some (q, r, Smoothed) \<and> min_d st' = s"
    unfolding m p by auto
  from m p c show ?thesis unfolding v by blast
qed

theorem grid_point_checks_in_order_witness:
  "grid_point ex_dist ex_smoother ex_best6 ex_vort6 (1 / 10 ^ 4) (1 / 10 ^ 2)
     (initial_state ex_dist () ex_best6 ex_vort6) = Inr (ex_found (1 / 10 ^ 4) (1 / 10 ^ 2)) \<and>
   min_d (initial_state ex_dist () ex_best6 ex_vort6) = 24 \<and>
   smoothed_new_d ex_dist ex_best6 (ex_found (1 / 10 ^ 4) (1 / 10 ^ 2)) = 6 \<and>
   filtered_new_d ex_dist ex_best6 (ex_found (1 / 10 ^ 4) (1 / 10 ^ 2)) = 27 / 2 \<and>
   new_overlap ex_dist ex_best6 (ex_found (1 / 10 ^ 4) (1 / 10 ^ 2)) = 6 \<and>
   optimum_param (ex_found (1 / 10 ^ 4) (1 / 10 ^ 2)) = Some (1 / 10 ^ 4, 1 / 10 ^ 2, Smoothed) \<and>
   min_d (ex_found (1 / 10 ^ 4) (1 / 10 ^ 2)) = 6"
proof -
  have i: "min_d (initial_state ex_dist () ex_best6 ex_vort6) = 24"
    by (simp add: initial_state_def ex_baseline6)
  have s: "smoothed_new_d ex_dist ex_best6 (ex_found (1 / 10 ^ 4) (1 / 10 ^ 2)) = 6"
    by (simp add: smoothed_new_d_def u_cum_dist_def observations_def ex_search_defs)
  have f: "filtered_new_d ex_dist ex_best6 (ex_found (1 / 10 ^ 4) (1 / 10 ^ 2)) = 27 / 2"
    by (simp add: filtered_new_d_def u_cum_dist_def observations_def ex_search_defs)
  have o: "new_overlap ex_dist ex_best6 (ex_found (1 / 10 ^ 4) (1 / 10 ^ 2)) = 6"
    by (simp add: new_overlap_def u_cum_dist_def observations_def ex_search_defs)
  from grid_point_checks_in_order[OF ex_first_point[of "1 / 10 ^ 4" "1 / 10 ^ 2"]]
  have "optimum_param (ex_found (1 / 10 ^ 4) (1 / 10 ^ 2)) =
      Some (1 / 10 ^ 4, 1 / 10 ^ 2, Smoothed) \<and> min_d (ex_found (1 / 10 ^ 4) (1 / 10 ^ 2)) = 6"
    unfolding i s f o by simp
  with i s f o ex_first_point show ?thesis by blast
qed

end
